theory Spec2Isabelle
  imports Complex_Main "HOL-Library.Multiset" "HOL-Library.Sublist"
begin

section \<open>Data model\<close>

text \<open>
  The \<^verbatim>\<open>Talk\<close> objects built in \<^verbatim>\<open>performSearch\<close> (TalkPanel.tsx, lines 137-143) and the
  payload of the \<^verbatim>\<open>sendMessage\<close> action built in \<^verbatim>\<open>sendTranscriptAsMessage\<close> (lines 196-202).
  Strings are byte lists; nothing below depends on the length of a string. The field
  \<^verbatim>\<open>text\<close> of a message is \<open>msg_text\<close> here.
\<close>

record Talk =
  presenterDisplayName :: string
  title :: string
  url :: string
  sdg_tags :: "string list"
  transcript :: string

record Message =
  persona :: string
  role :: string
  sender :: string
  msg_text :: string
  hidden :: bool

text \<open>
  The actions the two panels dispatch, named after their action creators
  (imports of TalkPanel.tsx lines 9-11 and of ChatPanel.tsx line 8).
\<close>

datatype action =
    setTalks "Talk list"
  | setSelectedTalk Talk
  | setLoading bool
  | setApiError "string option"
  | sendMessage Message
  | clearMessages

text \<open>
  Modelled from the spec: the shared state store. The slices \<^verbatim>\<open>store/talkSlice\<close>,
  \<^verbatim>\<open>store/apiSlice\<close> and \<^verbatim>\<open>store/chatSlice\<close> are not among the source files; the spec
  describes the store as "holding talk list, loading/error flags, and chat message history".
  The fields are the ones the panels select: \<^verbatim>\<open>state.talk.talks\<close>,
  \<^verbatim>\<open>state.talk.selectedTalk\<close>, \<^verbatim>\<open>state.api.isLoading\<close>, \<^verbatim>\<open>state.api.error\<close> and
  \<^verbatim>\<open>state.chat.messages\<close>.
\<close>

record RootState =
  talks :: "Talk list"
  selectedTalk :: "Talk option"
  isLoading :: bool
  error :: "string option"
  messages :: "Message list"

text \<open>
  Modelled from the spec: the reducers of the missing slices. Each setter replaces its own
  field, \<^verbatim>\<open>sendMessage\<close> appends to the chat message log ("accumulated messages") and
  \<^verbatim>\<open>clearMessages\<close> empties it ("clears history on demand").
\<close>

fun reducer :: "action \<Rightarrow> RootState \<Rightarrow> RootState" where
  "reducer (setTalks ts) st = st\<lparr>talks := ts\<rparr>"
| "reducer (setSelectedTalk t) st = st\<lparr>selectedTalk := Some t\<rparr>"
| "reducer (setLoading b) st = st\<lparr>isLoading := b\<rparr>"
| "reducer (setApiError e) st = st\<lparr>error := e\<rparr>"
| "reducer (sendMessage m) st = st\<lparr>messages := messages st @ [m]\<rparr>"
| "reducer clearMessages st = st\<lparr>messages := []\<rparr>"

subsection \<open>Telemetry spans\<close>

text \<open>
  A span of \<^verbatim>\<open>@opentelemetry/api\<close> as far as the panel uses it: its name, the attributes
  set on it, the exceptions recorded on it and how many times \<^verbatim>\<open>end()\<close> was called.
\<close>

datatype attrValue = BoolAttr bool | StringAttr string | NumberAttr nat

datatype exn = CanceledError | AxiosError | StatusError | TypeError

record Span =
  span_name :: string
  attributes :: "(string \<times> attrValue) list"
  exceptions :: "exn list"
  ended :: nat

subsection \<open>The search backend's replies\<close>

text \<open>
  One element of \<^verbatim>\<open>response.data.results\<close> is an object whose \<^verbatim>\<open>document\<close> may be
  missing; a document's fields may be missing too (\<^verbatim>\<open>None\<close> is \<^verbatim>\<open>undefined\<close>).
\<close>

record document =
  doc_presenterDisplayName :: "string option"
  slug :: "string option"
  doc_sdg_tags :: "string list option"
  doc_transcript :: "string option"

text \<open>
  What the network does with a request that is not aborted: a response with a status and
  (possibly absent) \<^verbatim>\<open>data.results\<close>, or a failure (no connection, a status axios rejects).
\<close>

datatype reply =
    Response nat "document option list option"
  | NetworkFailure

subsection \<open>The Talk Panel's state\<close>

text \<open>
  The messages of \<^verbatim>\<open>debugLog\<close>, of \<^verbatim>\<open>console.error\<close> in \<^verbatim>\<open>performSearch\<close> and of
  \<^verbatim>\<open>console.log\<close> in \<^verbatim>\<open>handleClearChat\<close>, one constructor per message template, carrying
  the interpolated values.
\<close>

datatype logEntry =
    LogInitialMount
  | LogSubsequentMount
  | LogCleanupAbort
  | LogPerforming string
  | LogInProgress
  | LogRequest string
  | LogError exn
  | LogHandling nat
  | LogAlreadySent string
  | LogSent string
  | LogChatCleared

text \<open>
  One call of \<^verbatim>\<open>axios.get\<close> (line 130) together with what the suspended \<^verbatim>\<open>performSearch\<close>
  closes over: the trimmed query sent in the URL, the \<^verbatim>\<open>AbortController\<close> whose signal was
  passed, the span of the call, the time of the call, and whether the promise has settled.
\<close>

record call =
  call_query :: string
  call_signal :: nat
  call_span :: nat
  call_time :: nat
  settled :: bool

text \<open>
  The component's refs and state (lines 36-41), the store it dispatches to with the log of
  dispatched actions, the \<^verbatim>\<open>AbortController\<close>s created so far (\<^verbatim>\<open>True\<close>: aborted), the
  \<^verbatim>\<open>search_talks\<close> spans started by \<^verbatim>\<open>performSearch\<close>, the requests issued, the console, the
  \<^verbatim>\<open>lastSearchData\<close> entry of local storage, a clock in milliseconds and the pending timer
  of the debounced function. The spans of the other handlers of the panel (watching a
  video, opening a transcript, shuffling) are left out.
\<close>

record TalkPanel =
  store :: RootState
  dispatched :: "action list"
  searchQuery :: string
  isStrictMode :: bool
  mountCounter :: nat
  abortControllerRef :: "nat option"
  isSearchInProgress :: bool
  sentMessagesRef :: "string set"
  controllers :: "bool list"
  spans :: "Span list"
  calls :: "call list"
  console :: "logEntry list"
  lastSearchData :: "Talk list option"
  clock :: nat
  debounceTimer :: "(nat \<times> string) option"

section \<open>Operations\<close>

definition dispatch :: "action \<Rightarrow> TalkPanel \<Rightarrow> TalkPanel" where
  "dispatch a s = s\<lparr>store := reducer a (store s), dispatched := dispatched s @ [a]\<rparr>"

definition debugLog :: "logEntry \<Rightarrow> TalkPanel \<Rightarrow> TalkPanel" where
  "debugLog m s = s\<lparr>console := console s @ [m]\<rparr>"

subsection \<open>Strings\<close>

text \<open>
  \<^verbatim>\<open>String.prototype.trim\<close> and \<^verbatim>\<open>toLowerCase\<close> on the ASCII range, the replacement
  \<^verbatim>\<open>replace(/_/g, ' ')\<close> of line 139 and \<^verbatim>\<open>Array.prototype.join\<close>.
\<close>

definition isWhiteSpace :: "char \<Rightarrow> bool" where
  "isWhiteSpace c = (c \<in> set [CHR '' '', CHR 0x09, CHR 0x0A, CHR 0x0B, CHR 0x0C, CHR 0x0D])"

definition trim :: "string \<Rightarrow> string" where
  "trim q = rev (dropWhile isWhiteSpace (rev (dropWhile isWhiteSpace q)))"

definition toLowerCase :: "string \<Rightarrow> string" where
  "toLowerCase q =
     map (\<lambda>c. if 65 \<le> (of_char c :: nat) \<and> (of_char c :: nat) \<le> 90
              then char_of (of_char c + 32 :: nat) else c) q"

definition replace_underscores :: "string \<Rightarrow> string" where
  "replace_underscores x = map (\<lambda>c. if c = CHR ''_'' then CHR '' '' else c) x"

fun join :: "string \<Rightarrow> string list \<Rightarrow> string" where
  "join sep [] = []"
| "join sep [x] = x"
| "join sep (x # y # ys) = x @ sep @ join sep (y # ys)"

text \<open>
  \<^verbatim>\<open>getSdgTitles\<close> (lines 25-26). The table \<^verbatim>\<open>sdgTitleMap\<close> of
  \<^verbatim>\<open>components/constants/sdgTitles\<close> is not among the source files and is a parameter;
  \<^verbatim>\<open>sdgTitleMap[tag] || tag\<close> falls back to the tag when the entry is missing or empty.
\<close>

definition getSdgTitles :: "(string \<rightharpoonup> string) \<Rightarrow> string list \<Rightarrow> string list" where
  "getSdgTitles sdgTitleMap sdgTags =
     map (\<lambda>tag. case sdgTitleMap tag of
                  None \<Rightarrow> tag
                | Some t \<Rightarrow> if t = [] then tag else t) sdgTags"

subsection \<open>Spans and abort controllers\<close>

definition startSpan :: "string \<Rightarrow> TalkPanel \<Rightarrow> TalkPanel" where
  "startSpan n s =
     s\<lparr>spans := spans s @ [\<lparr>span_name = n, attributes = [], exceptions = [], ended = 0\<rparr>]\<rparr>"

definition update_span :: "nat \<Rightarrow> (Span \<Rightarrow> Span) \<Rightarrow> TalkPanel \<Rightarrow> TalkPanel" where
  "update_span i f s = s\<lparr>spans := (spans s)[i := f (spans s ! i)]\<rparr>"

definition setAttribute :: "nat \<Rightarrow> string \<Rightarrow> attrValue \<Rightarrow> TalkPanel \<Rightarrow> TalkPanel" where
  "setAttribute i k v s = update_span i (\<lambda>sp. sp\<lparr>attributes := attributes sp @ [(k, v)]\<rparr>) s"

definition recordException :: "nat \<Rightarrow> exn \<Rightarrow> TalkPanel \<Rightarrow> TalkPanel" where
  "recordException i e s = update_span i (\<lambda>sp. sp\<lparr>exceptions := exceptions sp @ [e]\<rparr>) s"

definition endSpan :: "nat \<Rightarrow> TalkPanel \<Rightarrow> TalkPanel" where
  "endSpan i s = update_span i (\<lambda>sp. sp\<lparr>ended := Suc (ended sp)\<rparr>) s"

text \<open>\<^verbatim>\<open>abortControllerRef.current?.abort()\<close> (lines 99 and 121).\<close>

definition abort :: "TalkPanel \<Rightarrow> TalkPanel" where
  "abort s =
     (case abortControllerRef s of
        None \<Rightarrow> s
      | Some i \<Rightarrow> s\<lparr>controllers := (controllers s)[i := True]\<rparr>)"

definition aborted :: "TalkPanel \<Rightarrow> nat \<Rightarrow> bool" where
  "aborted s i = (i < length (controllers s) \<and> controllers s ! i)"

subsection \<open>The Chat Panel\<close>

text \<open>\<^verbatim>\<open>handleClearChat\<close> of ChatPanel.tsx (lines 66-69).\<close>

definition handleClearChat :: "TalkPanel \<Rightarrow> TalkPanel" where
  "handleClearChat s = debugLog LogChatCleared (dispatch clearMessages s)"

subsection \<open>The Talk Panel\<close>

text \<open>
  \<^verbatim>\<open>sendTranscriptAsMessage\<close> (lines 186-205). The function is declared \<^verbatim>\<open>async\<close> but
  awaits nothing, so a call runs to its end at once. The separator between transcript and
  title is a space, two em dashes (U+2014, three bytes each) and a space.
\<close>

definition em_dash :: string where
  "em_dash = [CHR 0xE2, CHR 0x80, CHR 0x94]"

definition transcriptMessage :: "(string \<rightharpoonup> string) \<Rightarrow> Talk \<Rightarrow> string" where
  "transcriptMessage sdgTitleMap talk =
     transcript talk @ '' '' @ em_dash @ em_dash @ '' '' @ title talk @ [CHR 0x0A, CHR 0x0A]
       @ join '', '' (getSdgTitles sdgTitleMap (sdg_tags talk))"

definition sendTranscriptAsMessage :: "(string \<rightharpoonup> string) \<Rightarrow> Talk \<Rightarrow> TalkPanel \<Rightarrow> TalkPanel" where
  "sendTranscriptAsMessage sdgTitleMap talk s =
     (if title talk \<in> sentMessagesRef s then debugLog (LogAlreadySent (title talk)) s
      else
        let s = s\<lparr>sentMessagesRef := insert (title talk) (sentMessagesRef s)\<rparr>;
            message = transcriptMessage sdgTitleMap talk;
            s = dispatch (sendMessage
                  \<lparr>persona = presenterDisplayName talk, role = ''bot'', sender = ''bot'',
                   msg_text = message, hidden = False\<rparr>) s
        in debugLog (LogSent (title talk)) s)"

text \<open>
  \<^verbatim>\<open>handleSearchResults\<close> (lines 164-184). \<open>rnd\<close> is the value \<^verbatim>\<open>Math.random()\<close> returns,
  a number in the interval from 0 (included) to 1 (excluded), and \<open>randomIndex\<close> is
  \<^verbatim>\<open>Math.floor(Math.random() * data.length)\<close>. Writing to local storage keeps the data
  itself in place of its JSON text.
\<close>

definition randomIndex :: "rat \<Rightarrow> nat \<Rightarrow> nat" where
  "randomIndex rnd n = nat \<lfloor>rnd * of_nat n\<rfloor>"

definition handleSearchResults :: "(string \<rightharpoonup> string) \<Rightarrow> rat \<Rightarrow> Talk list \<Rightarrow> TalkPanel \<Rightarrow> TalkPanel" where
  "handleSearchResults sdgTitleMap rnd data s =
     (let s = debugLog (LogHandling (length data)) s;
          s = dispatch (setTalks data) s;
          s = (if length data > 0 then
                 let randomTalk = data ! randomIndex rnd (length data);
                     reorderedTalks =
                       randomTalk # filter (\<lambda>talk. title talk \<noteq> title randomTalk) data;
                     s = dispatch (setTalks reorderedTalks) s;
                     s = dispatch (setSelectedTalk randomTalk) s
                 in sendTranscriptAsMessage sdgTitleMap randomTalk s
               else s)
      in s\<lparr>lastSearchData := Some data\<rparr>)"

text \<open>
  \<^verbatim>\<open>performSearch\<close> (lines 106-162) suspends once, at \<^verbatim>\<open>await axios.get\<close>. The function
  \<open>performSearch\<close> is the part that runs when it is called, up to and including the call of
  \<^verbatim>\<open>axios.get\<close>; \<open>performSearch_resume\<close> below is the part that runs when the promise settles.
\<close>

definition performSearch :: "string \<Rightarrow> TalkPanel \<Rightarrow> TalkPanel" where
  "performSearch query s =
     (let span = length (spans s);
          s = startSpan ''search_talks'' s;
          trimmedQuery = toLowerCase (trim query);
          s = setAttribute span ''search.query'' (StringAttr trimmedQuery) s;
          s = debugLog (LogPerforming trimmedQuery) s
      in if isSearchInProgress s then
           let s = debugLog LogInProgress s;
               s = setAttribute span ''search.skipped'' (BoolAttr True) s
           in endSpan span s
         else
           let s = abort s;
               signal = length (controllers s);
               s = s\<lparr>controllers := controllers s @ [False], abortControllerRef := Some signal\<rparr>;
               s = s\<lparr>isSearchInProgress := True\<rparr>;
               s = dispatch (setLoading True) s;
               s = dispatch (setApiError None) s;
               s = debugLog (LogRequest trimmedQuery) s
           in s\<lparr>calls := calls s @
                 [\<lparr>call_query = trimmedQuery, call_signal = signal, call_span = span,
                   call_time = clock s, settled = False\<rparr>]\<rparr>)"

text \<open>
  The mapping of \<^verbatim>\<open>response.data.results\<close> to talks (lines 137-143). Reading a field of a
  missing \<^verbatim>\<open>document\<close> and calling \<^verbatim>\<open>replace\<close> on a missing \<^verbatim>\<open>slug\<close> throw a
  \<^verbatim>\<open>TypeError\<close>; \<^verbatim>\<open>x || ''\<close> and \<^verbatim>\<open>x || []\<close> replace a missing field.
\<close>

definition toTalk :: "document option \<Rightarrow> exn + Talk" where
  "toTalk result =
     (case result of
        None \<Rightarrow> Inl TypeError
      | Some d \<Rightarrow>
          (case slug d of
             None \<Rightarrow> Inl TypeError
           | Some sl \<Rightarrow>
               Inr \<lparr>presenterDisplayName =
                      (case doc_presenterDisplayName d of None \<Rightarrow> [] | Some p \<Rightarrow> p),
                    title = replace_underscores sl,
                    url = ''https://www.ted.com/talks/'' @ sl,
                    sdg_tags = (case doc_sdg_tags d of None \<Rightarrow> [] | Some ts \<Rightarrow> ts),
                    transcript = (case doc_transcript d of None \<Rightarrow> [] | Some t \<Rightarrow> t)\<rparr>))"

fun mapTalks :: "document option list \<Rightarrow> exn + Talk list" where
  "mapTalks [] = Inr []"
| "mapTalks (r # rs) =
     (case toTalk r of
        Inl e \<Rightarrow> Inl e
      | Inr t \<Rightarrow> (case mapTalks rs of Inl e \<Rightarrow> Inl e | Inr ts \<Rightarrow> Inr (t # ts)))"

text \<open>
  What \<^verbatim>\<open>await axios.get(url, {signal})\<close> yields once the promise settles: a cancellation
  error when the signal has been aborted, else what the network did.
\<close>

definition axios_get :: "bool \<Rightarrow> reply \<Rightarrow> exn + nat \<times> document option list option" where
  "axios_get signal_aborted r =
     (if signal_aborted then Inl CanceledError
      else case r of
             NetworkFailure \<Rightarrow> Inl AxiosError
           | Response status results \<Rightarrow> Inr (status, results))"

definition isCancel :: "exn \<Rightarrow> bool" where
  "isCancel e = (e = CanceledError)"

text \<open>
  The \<^verbatim>\<open>try\<close> block (lines 128-147) from the point where the promise settles: \<open>Inl e\<close> is
  the exception \<open>e\<close> thrown, with the state as it was (nothing is written before the last
  point that can throw).
\<close>

definition performSearch_try ::
  "(string \<rightharpoonup> string) \<Rightarrow> rat \<Rightarrow> call \<Rightarrow> reply \<Rightarrow> TalkPanel \<Rightarrow> exn + TalkPanel" where
  "performSearch_try sdgTitleMap rnd c r s =
     (case axios_get (aborted s (call_signal c)) r of
        Inl e \<Rightarrow> Inl e
      | Inr (status, results) \<Rightarrow>
          if status \<noteq> 200 then Inl StatusError
          else (case results of
                  None \<Rightarrow> Inl TypeError
                | Some rs \<Rightarrow>
                    (case mapTalks rs of
                       Inl e \<Rightarrow> Inl e
                     | Inr data \<Rightarrow>
                         let s = setAttribute (call_span c) ''search.results_count''
                                   (NumberAttr (length data)) s
                         in Inr (if \<not> isStrictMode s
                                 then handleSearchResults sdgTitleMap rnd data s else s))))"

text \<open>The rest of \<^verbatim>\<open>performSearch\<close>: the \<^verbatim>\<open>try\<close> block, \<^verbatim>\<open>catch\<close> and \<^verbatim>\<open>finally\<close> (lines 128-160).\<close>

definition performSearch_resume ::
  "(string \<rightharpoonup> string) \<Rightarrow> rat \<Rightarrow> nat \<Rightarrow> reply \<Rightarrow> TalkPanel \<Rightarrow> TalkPanel" where
  "performSearch_resume sdgTitleMap rnd rid r s =
     (let c = calls s ! rid;
          span = call_span c;
          s = s\<lparr>calls := (calls s)[rid := c\<lparr>settled := True\<rparr>]\<rparr>;
          s = (case performSearch_try sdgTitleMap rnd c r s of
                 Inr s' \<Rightarrow> s'
               | Inl e \<Rightarrow>
                   if \<not> isCancel e then
                     let s = debugLog (LogError e) s;
                         s = recordException span e s
                     in dispatch (setApiError (Some ''Error fetching talks.'')) s
                   else setAttribute span ''search.cancelled'' (BoolAttr True) s);
          s = dispatch (setLoading False) s;
          s = s\<lparr>isSearchInProgress := False\<rparr>
      in endSpan span s)"

text \<open>
  The mount effect (lines 81-96) and its cleanup (lines 97-103). \<^verbatim>\<open>isDevelopment\<close>
  (line 22) is read from the environment and is a parameter. React keeps the refs and the
  state of the component when strict mode runs the effect, its cleanup and the effect
  again.
\<close>

definition mountEffect :: "bool \<Rightarrow> TalkPanel \<Rightarrow> TalkPanel" where
  "mountEffect isDevelopment s =
     (if isDevelopment then
        let s = s\<lparr>mountCounter := mountCounter s + 1\<rparr>
        in if mountCounter s = 1 then
             debugLog LogInitialMount (s\<lparr>isStrictMode := True\<rparr>)
           else
             let s = s\<lparr>isStrictMode := False\<rparr>;
                 s = debugLog LogSubsequentMount s
             in performSearch (searchQuery s) s
      else performSearch (searchQuery s) s)"

text \<open>
  The debounced function (lines 47-50): a call arms a timer of 500 ms, replacing a pending
  one; \<^verbatim>\<open>cancel\<close> drops the pending timer; the timer fires \<^verbatim>\<open>performSearch\<close> when the clock
  reaches its time.
\<close>

definition debouncedPerformSearch :: "string \<Rightarrow> TalkPanel \<Rightarrow> TalkPanel" where
  "debouncedPerformSearch query s = s\<lparr>debounceTimer := Some (clock s + 500, query)\<rparr>"

definition debouncedPerformSearch_cancel :: "TalkPanel \<Rightarrow> TalkPanel" where
  "debouncedPerformSearch_cancel s = s\<lparr>debounceTimer := None\<rparr>"

definition mountCleanup :: "bool \<Rightarrow> TalkPanel \<Rightarrow> TalkPanel" where
  "mountCleanup isDevelopment s =
     (let s = (if isDevelopment \<and> \<not> isStrictMode s
               then debugLog LogCleanupAbort (abort s) else s)
      in debouncedPerformSearch_cancel s)"

definition tick :: "nat \<Rightarrow> TalkPanel \<Rightarrow> TalkPanel" where
  "tick d s =
     (let s = s\<lparr>clock := clock s + d\<rparr>
      in case debounceTimer s of
           None \<Rightarrow> s
         | Some (due, query) \<Rightarrow>
             if due \<le> clock s then performSearch query (s\<lparr>debounceTimer := None\<rparr>) else s)"

subsection \<open>Events\<close>

text \<open>
  What can happen to the mounted panel: the mount effect and its cleanup run, the user edits
  the query (line 253), presses a key in the input (line 254), clicks the search button
  (lines 260-263, disabled while loading), a pending request settles, time passes, and the
  Chat Panel clears the chat.
\<close>

datatype event =
    Mount
  | Cleanup
  | Change string
  | KeyDown string
  | ClickSearch
  | Settle nat reply rat
  | Tick nat
  | ClearChat

fun step :: "bool \<Rightarrow> (string \<rightharpoonup> string) \<Rightarrow> event \<Rightarrow> TalkPanel \<Rightarrow> TalkPanel" where
  "step isDevelopment sdgTitleMap Mount s = mountEffect isDevelopment s"
| "step isDevelopment sdgTitleMap Cleanup s = mountCleanup isDevelopment s"
| "step isDevelopment sdgTitleMap (Change q) s = s\<lparr>searchQuery := q\<rparr>"
| "step isDevelopment sdgTitleMap (KeyDown k) s =
     (if k = ''Enter'' then performSearch (searchQuery s) s else s)"
| "step isDevelopment sdgTitleMap ClickSearch s =
     (if isLoading (store s) then s else performSearch (searchQuery s) s)"
| "step isDevelopment sdgTitleMap (Settle rid r rnd) s =
     (if rid < length (calls s) \<and> \<not> settled (calls s ! rid)
      then performSearch_resume sdgTitleMap rnd rid r s else s)"
| "step isDevelopment sdgTitleMap (Tick d) s = tick d s"
| "step isDevelopment sdgTitleMap ClearChat s = handleClearChat s"

fun run :: "bool \<Rightarrow> (string \<rightharpoonup> string) \<Rightarrow> event list \<Rightarrow> TalkPanel \<Rightarrow> TalkPanel" where
  "run isDevelopment sdgTitleMap [] s = s"
| "run isDevelopment sdgTitleMap (e # es) s =
     run isDevelopment sdgTitleMap es (step isDevelopment sdgTitleMap e s)"

text \<open>
  The panel before its first mount effect: the refs as created in lines 37-41, the query
  with the initial keyword (\<^verbatim>\<open>determineInitialKeyword\<close> is not among the source files) and
  any store.
\<close>

definition initialPanel :: "string \<Rightarrow> RootState \<Rightarrow> TalkPanel" where
  "initialPanel keyword st =
     \<lparr>store = st, dispatched = [], searchQuery = keyword, isStrictMode = False,
      mountCounter = 0, abortControllerRef = None, isSearchInProgress = False,
      sentMessagesRef = {}, controllers = [], spans = [], calls = [], console = [],
      lastSearchData = None, clock = 0, debounceTimer = None\<rparr>"

section \<open>Observations on a state\<close>

text \<open>
  The requests in flight (issued and not settled), and among them the ones whose signal
  has not been aborted.
\<close>

definition inFlight :: "TalkPanel \<Rightarrow> call list" where
  "inFlight s = filter (\<lambda>c. \<not> settled c) (calls s)"

definition liveRequests :: "TalkPanel \<Rightarrow> call list" where
  "liveRequests s = filter (\<lambda>c. \<not> aborted s (call_signal c)) (inFlight s)"

text \<open>
  The titles the console reports a transcript sent for (line 204), in order, and the chat
  messages dispatched, in order.
\<close>

fun sentTitles :: "logEntry list \<Rightarrow> string list" where
  "sentTitles [] = []"
| "sentTitles (LogSent t # es) = t # sentTitles es"
| "sentTitles (e # es) = sentTitles es"

fun sentMessages :: "action list \<Rightarrow> Message list" where
  "sentMessages [] = []"
| "sentMessages (sendMessage m # as) = m # sentMessages as"
| "sentMessages (a # as) = sentMessages as"

text \<open>The payloads of the \<^verbatim>\<open>setApiError\<close> actions dispatched, in order.\<close>

fun apiErrors :: "action list \<Rightarrow> string option list" where
  "apiErrors [] = []"
| "apiErrors (setApiError e # as) = e # apiErrors as"
| "apiErrors (a # as) = apiErrors as"

text \<open>
  No title has been reported sent twice, every title reported sent is in the sent set, and
  there are as many chat messages dispatched as titles reported sent.
\<close>

definition sent_once :: "TalkPanel \<Rightarrow> bool" where
  "sent_once s =
     (distinct (sentTitles (console s)) \<and>
      set (sentTitles (console s)) \<subseteq> sentMessagesRef s \<and>
      length (sentMessages (dispatched s)) = length (sentTitles (console s)))"

text \<open>
  The controller in \<^verbatim>\<open>abortControllerRef\<close> is the one created last, and every controller
  created before it has been aborted.
\<close>

definition controllers_ok :: "TalkPanel \<Rightarrow> bool" where
  "controllers_ok s =
     ((case abortControllerRef s of
         None \<Rightarrow> controllers s = []
       | Some i \<Rightarrow> Suc i = length (controllers s)) \<and>
      (\<forall>j. Suc j < length (controllers s) \<longrightarrow> controllers s ! j))"

text \<open>
  A request fails for a reason other than cancellation: its signal is not aborted, and the
  network fails, or the status is not 200, or the body cannot be mapped to talks.
\<close>

definition request_fails :: "bool \<Rightarrow> reply \<Rightarrow> bool" where
  "request_fails signal_aborted r =
     (\<not> signal_aborted \<and>
      (case r of
         NetworkFailure \<Rightarrow> True
       | Response status results \<Rightarrow>
           status \<noteq> 200 \<or>
           (case results of None \<Rightarrow> True | Some rs \<Rightarrow> isl (mapTalks rs))))"

text \<open>
  The state is consistent: a search is in progress exactly when one request is in flight,
  and then only one; every request refers to a span and a controller that exist; a span
  is open while its request is in flight and has been ended once otherwise.
\<close>

definition consistent :: "TalkPanel \<Rightarrow> bool" where
  "consistent s =
     (length (inFlight s) = (if isSearchInProgress s then 1 else 0) \<and>
      (\<forall>c \<in> set (calls s). call_span c < length (spans s) \<and>
                             call_signal c < length (controllers s)) \<and>
      (\<forall>i < length (spans s).
          ended (spans s ! i) = (if i \<in> call_span ` set (inFlight s) then 0 else 1)))"

section \<open>Example values\<close>

text \<open>Concrete talks, tables and states on which the theorems below are evaluated.\<close>

definition talkA :: Talk where
  "talkA = \<lparr>presenterDisplayName = ''Ada'', title = ''clean water'',
            url = ''https://www.ted.com/talks/clean_water'', sdg_tags = [''sdg6''],
            transcript = ''Water matters.''\<rparr>"

definition talkB :: Talk where
  "talkB = \<lparr>presenterDisplayName = ''Bob'', title = ''clean water'',
            url = ''https://www.ted.com/talks/clean_water'', sdg_tags = [],
            transcript = ''Once more.''\<rparr>"

definition talkC :: Talk where
  "talkC = \<lparr>presenterDisplayName = ''Cy'', title = ''solar power'',
            url = ''https://www.ted.com/talks/solar_power'', sdg_tags = [''sdg7''],
            transcript = ''Sun.''\<rparr>"

definition docA :: document where
  "docA = \<lparr>doc_presenterDisplayName = Some ''Ada'', slug = Some ''clean_water'',
           doc_sdg_tags = Some [''sdg6''], doc_transcript = Some ''Water matters.''\<rparr>"

definition sdgTitles0 :: "string \<rightharpoonup> string" where
  "sdgTitles0 = [''sdg6'' \<mapsto> ''Clean Water and Sanitation'']"

definition store0 :: RootState where
  "store0 = \<lparr>talks = [], selectedTalk = None, isLoading = False, error = None, messages = []\<rparr>"

definition panel0 :: TalkPanel where
  "panel0 = initialPanel ''Water'' store0"

section \<open>Basic facts\<close>

lemmas basic_defs = dispatch_def debugLog_def startSpan_def update_span_def setAttribute_def
  recordException_def endSpan_def abort_def

lemma randomIndex_less: "0 \<le> rnd \<Longrightarrow> rnd < 1 \<Longrightarrow> 0 < n \<Longrightarrow> randomIndex rnd n < n"
proof -
  assume a: "0 \<le> rnd" "rnd < 1" "0 < n"
  have "rnd * of_nat n < of_nat n" using a by simp
  then have "\<lfloor>rnd * of_nat n\<rfloor> < int n" by (simp add: floor_less_iff)
  moreover have "0 \<le> \<lfloor>rnd * of_nat n\<rfloor>" using a by simp
  ultimately show ?thesis unfolding randomIndex_def by linarith
qed

lemma join_sublist: "x \<in> set xs \<Longrightarrow> sublist x (join sep xs)"
  by (induction sep xs rule: join.induct) (auto simp: sublist_append)

lemma transcriptMessage_contains:
  "sublist (transcript talk) (transcriptMessage M talk)"
  "sublist (title talk) (transcriptMessage M talk)"
  "x \<in> set (getSdgTitles M (sdg_tags talk)) \<Longrightarrow> sublist x (transcriptMessage M talk)"
proof -
  show "sublist (transcript talk) (transcriptMessage M talk)"
    unfolding transcriptMessage_def by (rule sublist_append_rightI)
  have "transcriptMessage M talk =
      (transcript talk @ '' '' @ em_dash @ em_dash @ '' '') @ title talk @
      ([CHR 0x0A, CHR 0x0A] @ join '', '' (getSdgTitles M (sdg_tags talk)))"
    by (simp add: transcriptMessage_def)
  then show "sublist (title talk) (transcriptMessage M talk)"
    using sublist_appendI by metis
  assume "x \<in> set (getSdgTitles M (sdg_tags talk))"
  then have "sublist x (join '', '' (getSdgTitles M (sdg_tags talk)))"
    by (rule join_sublist)
  moreover have "sublist (join '', '' (getSdgTitles M (sdg_tags talk))) (transcriptMessage M talk)"
    unfolding transcriptMessage_def
    by (metis append_assoc sublist_append_leftI)
  ultimately show "sublist x (transcriptMessage M talk)"
    by (rule sublist_order.order_trans)
qed

lemma filter_single:
  assumes "x \<in> set xs" "P x" "length (filter P xs) = 1"
  shows "filter P xs = [x]"
proof -
  obtain y where y: "filter P xs = [y]"
    using assms(3) by (cases "filter P xs") auto
  have "x \<in> set (filter P xs)" using assms by simp
  with y show ?thesis by simp
qed

lemma move_to_top_mset:
  assumes "t \<in> set data" "length (filter (\<lambda>x. title x = title t) data) = 1"
  shows "mset (t # filter (\<lambda>x. title x \<noteq> title t) data) = mset data"
proof -
  have "filter (\<lambda>x. title x = title t) data = [t]"
    using assms by (intro filter_single) auto
  then have "mset data = mset [t] + mset (filter (\<lambda>x. title x \<noteq> title t) data)"
    by (metis mset_filter multiset_partition)
  then show ?thesis by simp
qed

lemma map_ended_update_attributes:
  "map ended (xs[i := f (xs ! i)]) = map ended xs" if "\<And>x. ended (f x) = ended x"
proof (rule nth_equalityI)
  show "length (map ended (xs[i := f (xs ! i)])) = length (map ended xs)" by simp
next
  fix j assume "j < length (map ended (xs[i := f (xs ! i)]))"
  then have j: "j < length xs" by simp
  show "map ended (xs[i := f (xs ! i)]) ! j = map ended xs ! j"
    using j that by (cases "j = i") simp_all
qed

lemma setAttribute_frame:
  "calls (setAttribute i k v s) = calls s"
  "controllers (setAttribute i k v s) = controllers s"
  "isSearchInProgress (setAttribute i k v s) = isSearchInProgress s"
  "isStrictMode (setAttribute i k v s) = isStrictMode s"
  "abortControllerRef (setAttribute i k v s) = abortControllerRef s"
  "store (setAttribute i k v s) = store s"
  "dispatched (setAttribute i k v s) = dispatched s"
  "console (setAttribute i k v s) = console s"
  "sentMessagesRef (setAttribute i k v s) = sentMessagesRef s"
  "length (spans (setAttribute i k v s)) = length (spans s)"
  "map ended (spans (setAttribute i k v s)) = map ended (spans s)"
  by (simp_all add: setAttribute_def update_span_def map_ended_update_attributes)

lemma sendTranscript_frame:
  "calls (sendTranscriptAsMessage M t s) = calls s"
  "controllers (sendTranscriptAsMessage M t s) = controllers s"
  "isSearchInProgress (sendTranscriptAsMessage M t s) = isSearchInProgress s"
  "isStrictMode (sendTranscriptAsMessage M t s) = isStrictMode s"
  "abortControllerRef (sendTranscriptAsMessage M t s) = abortControllerRef s"
  "spans (sendTranscriptAsMessage M t s) = spans s"
  "isLoading (store (sendTranscriptAsMessage M t s)) = isLoading (store s)"
  "error (store (sendTranscriptAsMessage M t s)) = error (store s)"
  by (simp_all add: sendTranscriptAsMessage_def basic_defs Let_def)

lemma handleSearchResults_frame:
  "calls (handleSearchResults M rnd data s) = calls s"
  "controllers (handleSearchResults M rnd data s) = controllers s"
  "isSearchInProgress (handleSearchResults M rnd data s) = isSearchInProgress s"
  "isStrictMode (handleSearchResults M rnd data s) = isStrictMode s"
  "abortControllerRef (handleSearchResults M rnd data s) = abortControllerRef s"
  "spans (handleSearchResults M rnd data s) = spans s"
  "isLoading (store (handleSearchResults M rnd data s)) = isLoading (store s)"
  "error (store (handleSearchResults M rnd data s)) = error (store s)"
  by (simp_all add: handleSearchResults_def sendTranscript_frame basic_defs Let_def)

lemma performSearch_try_frame:
  assumes "performSearch_try M rnd c r s = Inr s'"
  shows "calls s' = calls s" "controllers s' = controllers s"
    "isSearchInProgress s' = isSearchInProgress s" "isStrictMode s' = isStrictMode s"
    "abortControllerRef s' = abortControllerRef s"
    "length (spans s') = length (spans s)" "map ended (spans s') = map ended (spans s)"
    "isLoading (store s') = isLoading (store s)"
    "error (store s') = error (store s)"
  using assms
  by (auto simp: performSearch_try_def Let_def handleSearchResults_frame setAttribute_frame
      split: sum.splits prod.splits if_splits option.splits)

lemma performSearch_skip:
  assumes "isSearchInProgress s"
  shows "calls (performSearch q s) = calls s"
    "controllers (performSearch q s) = controllers s"
    "abortControllerRef (performSearch q s) = abortControllerRef s"
    "isSearchInProgress (performSearch q s)"
    "isStrictMode (performSearch q s) = isStrictMode s"
    "store (performSearch q s) = store s"
    "dispatched (performSearch q s) = dispatched s"
    "sentMessagesRef (performSearch q s) = sentMessagesRef s"
    "spans (performSearch q s) = spans s @
       [\<lparr>span_name = ''search_talks'',
         attributes = [(''search.query'', StringAttr (toLowerCase (trim q))),
                       (''search.skipped'', BoolAttr True)],
         exceptions = [], ended = 1\<rparr>]"
  using assms by (simp_all add: performSearch_def basic_defs Let_def)

lemma performSearch_start:
  assumes "\<not> isSearchInProgress s"
  shows "calls (performSearch q s) = calls s @
       [\<lparr>call_query = toLowerCase (trim q), call_signal = length (controllers s),
         call_span = length (spans s), call_time = clock s, settled = False\<rparr>]"
    "controllers (performSearch q s) = controllers (abort s) @ [False]"
    "abortControllerRef (performSearch q s) = Some (length (controllers s))"
    "isSearchInProgress (performSearch q s)"
    "isStrictMode (performSearch q s) = isStrictMode s"
    "store (performSearch q s) = (store s)\<lparr>isLoading := True, error := None\<rparr>"
    "dispatched (performSearch q s) = dispatched s @ [setLoading True, setApiError None]"
    "sentMessagesRef (performSearch q s) = sentMessagesRef s"
    "spans (performSearch q s) = spans s @
       [\<lparr>span_name = ''search_talks'',
         attributes = [(''search.query'', StringAttr (toLowerCase (trim q)))],
         exceptions = [], ended = 0\<rparr>]"
  using assms by (simp_all add: performSearch_def basic_defs Let_def split: option.splits)

lemma abort_frame:
  "length (controllers (abort s)) = length (controllers s)"
  "calls (abort s) = calls s" "spans (abort s) = spans s"
  "isSearchInProgress (abort s) = isSearchInProgress s"
  by (simp_all add: abort_def split: option.splits)

lemma endSpan_frame:
  "calls (endSpan i s) = calls s" "controllers (endSpan i s) = controllers s"
  "isSearchInProgress (endSpan i s) = isSearchInProgress s"
  "isStrictMode (endSpan i s) = isStrictMode s"
  "abortControllerRef (endSpan i s) = abortControllerRef s"
  "store (endSpan i s) = store s" "dispatched (endSpan i s) = dispatched s"
  "length (spans (endSpan i s)) = length (spans s)"
  by (simp_all add: endSpan_def update_span_def)

lemma endSpan_ended:
  "map ended (spans (endSpan i s)) = (map ended (spans s))[i := Suc (map ended (spans s) ! i)]"
proof (cases "i < length (spans s)")
  case True
  then show ?thesis by (simp add: endSpan_def update_span_def map_update)
next
  case False
  then show ?thesis by (simp add: endSpan_def update_span_def list_update_beyond)
qed

lemma recordException_frame:
  "calls (recordException i e s) = calls s" "controllers (recordException i e s) = controllers s"
  "isSearchInProgress (recordException i e s) = isSearchInProgress s"
  "isStrictMode (recordException i e s) = isStrictMode s"
  "abortControllerRef (recordException i e s) = abortControllerRef s"
  "store (recordException i e s) = store s" "dispatched (recordException i e s) = dispatched s"
  "console (recordException i e s) = console s"
  "sentMessagesRef (recordException i e s) = sentMessagesRef s"
  "length (spans (recordException i e s)) = length (spans s)"
  "map ended (spans (recordException i e s)) = map ended (spans s)"
  by (simp_all add: recordException_def update_span_def map_ended_update_attributes)

lemma debugLog_frame:
  "calls (debugLog m s) = calls s" "controllers (debugLog m s) = controllers s"
  "isSearchInProgress (debugLog m s) = isSearchInProgress s"
  "isStrictMode (debugLog m s) = isStrictMode s"
  "abortControllerRef (debugLog m s) = abortControllerRef s"
  "store (debugLog m s) = store s" "dispatched (debugLog m s) = dispatched s"
  "sentMessagesRef (debugLog m s) = sentMessagesRef s"
  "spans (debugLog m s) = spans s"
  "console (debugLog m s) = console s @ [m]"
  by (simp_all add: debugLog_def)

lemma dispatch_frame:
  "calls (dispatch a s) = calls s" "controllers (dispatch a s) = controllers s"
  "isSearchInProgress (dispatch a s) = isSearchInProgress s"
  "isStrictMode (dispatch a s) = isStrictMode s"
  "abortControllerRef (dispatch a s) = abortControllerRef s"
  "sentMessagesRef (dispatch a s) = sentMessagesRef s"
  "spans (dispatch a s) = spans s"
  "console (dispatch a s) = console s"
  "store (dispatch a s) = reducer a (store s)"
  "dispatched (dispatch a s) = dispatched s @ [a]"
  by (simp_all add: dispatch_def)

lemma performSearch_resume_frame:
  "calls (performSearch_resume M rnd rid r s) = (calls s)[rid := (calls s ! rid)\<lparr>settled := True\<rparr>]"
  "\<not> isSearchInProgress (performSearch_resume M rnd rid r s)"
  "controllers (performSearch_resume M rnd rid r s) = controllers s"
  "length (spans (performSearch_resume M rnd rid r s)) = length (spans s)"
  "map ended (spans (performSearch_resume M rnd rid r s)) =
     (map ended (spans s))[call_span (calls s ! rid) :=
        Suc (map ended (spans s) ! call_span (calls s ! rid))]"
  by (simp_all add: performSearch_resume_def Let_def endSpan_frame endSpan_ended dispatch_frame
      debugLog_frame recordException_frame setAttribute_frame performSearch_try_frame
      split: sum.splits)

lemma consistent_initialPanel: "consistent (initialPanel kw st)"
  by (simp add: consistent_def initialPanel_def inFlight_def)

lemma consistent_performSearch_skip:
  assumes "consistent s" "isSearchInProgress s"
  shows "consistent (performSearch q s)"
  using assms
  by (auto simp: consistent_def inFlight_def performSearch_skip nth_append less_Suc_eq)

lemma consistent_performSearch_start:
  assumes "consistent s" "\<not> isSearchInProgress s"
  shows "consistent (performSearch q s)"
  using assms
  by (auto simp: consistent_def inFlight_def performSearch_start abort_frame nth_append less_Suc_eq
      filter_empty_conv)

lemma filter_update_settled:
  assumes "i < length xs" "\<not> settled (xs ! i)" "length (filter (\<lambda>c. \<not> settled c) xs) = 1"
  shows "filter (\<lambda>c. \<not> settled c) (xs[i := (xs ! i)\<lparr>settled := True\<rparr>]) = []"
proof -
  let ?P = "\<lambda>c. \<not> settled c"
  have split: "xs = take i xs @ xs ! i # drop (Suc i) xs"
    using assms(1) by (rule id_take_nth_drop)
  have "filter ?P xs = filter ?P (take i xs) @ xs ! i # filter ?P (drop (Suc i) xs)"
    using assms(2) by (subst split) simp
  with assms(3) have "filter ?P (take i xs) = []" "filter ?P (drop (Suc i) xs) = []"
    by simp_all
  moreover have "xs[i := (xs ! i)\<lparr>settled := True\<rparr>] =
      take i xs @ (xs ! i)\<lparr>settled := True\<rparr> # drop (Suc i) xs"
    using assms(1) by (rule upd_conv_take_nth_drop)
  ultimately show ?thesis by simp
qed

lemma consistent_performSearch_resume:
  assumes "consistent s" "rid < length (calls s)" "\<not> settled (calls s ! rid)"
  shows "consistent (performSearch_resume M rnd rid r s)"
proof -
  let ?s' = "performSearch_resume M rnd rid r s"
  let ?c = "calls s ! rid"
  have c_in: "?c \<in> set (calls s)" using assms(2) by simp
  have "inFlight s \<noteq> []"
    using c_in assms(3) by (auto simp: inFlight_def filter_empty_conv)
  with assms(1) have one: "length (inFlight s) = 1"
    by (auto simp: consistent_def split: if_splits)
  then have flight: "inFlight s = [?c]"
    unfolding inFlight_def using c_in assms(3) by (intro filter_single) auto
  have none: "inFlight ?s' = []"
    using filter_update_settled[OF assms(2,3)] one
    by (simp add: inFlight_def performSearch_resume_frame)
  have refs: "\<forall>c \<in> set (calls ?s'). call_span c < length (spans ?s') \<and>
                 call_signal c < length (controllers ?s')"
  proof
    fix c assume "c \<in> set (calls ?s')"
    then have "c \<in> insert (?c\<lparr>settled := True\<rparr>) (set (calls s))"
      using set_update_subset_insert by (fastforce simp: performSearch_resume_frame)
    then show "call_span c < length (spans ?s') \<and> call_signal c < length (controllers ?s')"
      using assms(1) c_in by (auto simp: consistent_def performSearch_resume_frame)
  qed
  have ends: "\<forall>i < length (spans ?s'). ended (spans ?s' ! i) = 1"
  proof (intro allI impI)
    fix i assume i: "i < length (spans ?s')"
    then have i': "i < length (spans s)" by (simp add: performSearch_resume_frame)
    have before: "ended (spans s ! i) = (if i = call_span ?c then 0 else 1)"
      using assms(1) i' flight by (simp add: consistent_def)
    have "ended (spans ?s' ! i) = map ended (spans ?s') ! i"
      using i by simp
    also have "\<dots> = (if i = call_span ?c then Suc (ended (spans s ! i)) else ended (spans s ! i))"
      using i' by (simp add: performSearch_resume_frame nth_list_update)
    finally show "ended (spans ?s' ! i) = 1"
      using before by (cases "i = call_span ?c") simp_all
  qed
  show ?thesis
    using none refs ends
    by (simp add: consistent_def performSearch_resume_frame)
qed

lemma consistent_fields:
  assumes "consistent s" "calls s' = calls s" "spans s' = spans s"
    "isSearchInProgress s' = isSearchInProgress s"
    "length (controllers s') = length (controllers s)"
  shows "consistent s'"
  using assms by (simp add: consistent_def inFlight_def)

lemma consistent_abort: "consistent s \<Longrightarrow> consistent (abort s)"
  by (erule consistent_fields) (simp_all add: abort_frame)

lemma consistent_debugLog: "consistent s \<Longrightarrow> consistent (debugLog m s)"
  by (erule consistent_fields) (simp_all add: debugLog_def)

lemma consistent_performSearch: "consistent s \<Longrightarrow> consistent (performSearch q s)"
  by (cases "isSearchInProgress s")
    (simp_all add: consistent_performSearch_skip consistent_performSearch_start)

lemma consistent_mountEffect: "consistent s \<Longrightarrow> consistent (mountEffect d s)"
proof -
  assume c: "consistent s"
  have a: "consistent (s\<lparr>mountCounter := n, isStrictMode := b\<rparr>)" for b n
    by (rule consistent_fields[OF c]) simp_all
  show ?thesis
    unfolding mountEffect_def Let_def
    using c a by (simp add: consistent_debugLog consistent_performSearch)
qed

lemma consistent_mountCleanup: "consistent s \<Longrightarrow> consistent (mountCleanup d s)"
proof -
  assume c: "consistent s"
  have "consistent s' \<Longrightarrow> consistent (debouncedPerformSearch_cancel s')" for s'
    by (erule consistent_fields) (simp_all add: debouncedPerformSearch_cancel_def)
  then show ?thesis
    unfolding mountCleanup_def Let_def
    using c by (simp add: consistent_debugLog consistent_abort)
qed

lemma consistent_tick: "consistent s \<Longrightarrow> consistent (tick d s)"
proof -
  assume c: "consistent s"
  have a: "consistent (s\<lparr>clock := clock s + d\<rparr>)"
    by (rule consistent_fields[OF c]) simp_all
  have b: "consistent (s\<lparr>clock := clock s + d, debounceTimer := None\<rparr>)"
    by (rule consistent_fields[OF c]) simp_all
  show ?thesis
    unfolding tick_def Let_def
    using a b by (simp add: consistent_performSearch split: option.splits)
qed

lemma consistent_handleClearChat: "consistent s \<Longrightarrow> consistent (handleClearChat s)"
  by (erule consistent_fields) (simp_all add: handleClearChat_def dispatch_def debugLog_def)

lemma consistent_step:
  assumes "consistent s"
  shows "consistent (step isDevelopment M e s)"
proof (cases e)
  case (Change q)
  have "consistent (s\<lparr>searchQuery := q\<rparr>)"
    by (rule consistent_fields[OF assms]) simp_all
  with Change show ?thesis by simp
qed (use assms in \<open>simp_all add: consistent_mountEffect consistent_mountCleanup
      consistent_performSearch consistent_performSearch_resume consistent_tick
      consistent_handleClearChat\<close>)

lemma consistent_run:
  "consistent s \<Longrightarrow> consistent (run isDevelopment M es s)"
  by (induction es arbitrary: s) (simp_all add: consistent_step)

lemma controllers_ok_fields:
  assumes "controllers_ok s" "controllers s' = controllers s"
    "abortControllerRef s' = abortControllerRef s"
  shows "controllers_ok s'"
  using assms by (auto simp: controllers_ok_def split: option.splits)

lemma controllers_ok_abort: "controllers_ok s \<Longrightarrow> controllers_ok (abort s)"
  by (auto simp: controllers_ok_def abort_def nth_list_update split: option.splits)

lemma abort_aborts_all:
  assumes "controllers_ok s" "j < length (controllers s)"
  shows "controllers (abort s) ! j"
proof (cases "abortControllerRef s")
  case None
  then show ?thesis using assms by (simp add: controllers_ok_def)
next
  case (Some i)
  then have i: "Suc i = length (controllers s)" using assms(1) by (simp add: controllers_ok_def)
  show ?thesis
  proof (cases "j = i")
    case True
    then show ?thesis using Some assms(2) by (simp add: abort_def)
  next
    case False
    then have "Suc j < length (controllers s)" using i assms(2) by simp
    then have "controllers s ! j" using assms(1) by (simp add: controllers_ok_def)
    then show ?thesis using Some False by (simp add: abort_def)
  qed
qed

lemma controllers_ok_performSearch:
  assumes "controllers_ok s"
  shows "controllers_ok (performSearch q s)"
proof (cases "isSearchInProgress s")
  case True
  then show ?thesis
    using assms by (intro controllers_ok_fields[OF assms]) (simp_all add: performSearch_skip)
next
  case False
  have "controllers (abort s) ! j" if "j < length (controllers s)" for j
    using abort_aborts_all[OF assms that] .
  then show ?thesis
    using False
    by (simp add: controllers_ok_def performSearch_start abort_frame nth_append)
qed

lemma performSearch_resume_refs:
  "abortControllerRef (performSearch_resume M rnd rid r s) = abortControllerRef s"
  "isStrictMode (performSearch_resume M rnd rid r s) = isStrictMode s"
  by (simp_all add: performSearch_resume_def Let_def endSpan_frame dispatch_frame
      debugLog_frame recordException_frame setAttribute_frame performSearch_try_frame
      split: sum.splits)

lemma controllers_ok_resume:
  assumes "controllers_ok s"
  shows "controllers_ok (performSearch_resume M rnd rid r s)"
  by (rule controllers_ok_fields[OF assms])
    (simp_all add: performSearch_resume_frame performSearch_resume_refs)

lemma controllers_ok_step:
  assumes "controllers_ok s"
  shows "controllers_ok (step d M e s)"
proof (cases e)
  case Mount
  have "controllers_ok (s\<lparr>mountCounter := n, isStrictMode := b\<rparr>)" for n b
    by (rule controllers_ok_fields[OF assms]) simp_all
  then have "controllers_ok (debugLog m (s\<lparr>mountCounter := n, isStrictMode := b\<rparr>))" for n b m
    by (rule controllers_ok_fields) (simp_all add: debugLog_def)
  then show ?thesis
    using Mount assms by (simp add: mountEffect_def Let_def controllers_ok_performSearch)
next
  case Cleanup
  have *: "controllers_ok s' \<Longrightarrow> controllers_ok (debouncedPerformSearch_cancel s')" for s'
    by (erule controllers_ok_fields) (simp_all add: debouncedPerformSearch_cancel_def)
  have "controllers_ok (debugLog m (abort s))" for m
    by (rule controllers_ok_fields[OF controllers_ok_abort[OF assms]]) (simp_all add: debugLog_def)
  then show ?thesis
    using Cleanup assms by (simp add: mountCleanup_def Let_def *)
next
  case (Change q)
  have "controllers_ok (s\<lparr>searchQuery := q\<rparr>)"
    by (rule controllers_ok_fields[OF assms]) simp_all
  with Change show ?thesis by simp
next
  case (KeyDown k)
  then show ?thesis using assms by (simp add: controllers_ok_performSearch)
next
  case ClickSearch
  then show ?thesis using assms by (simp add: controllers_ok_performSearch)
next
  case (Settle rid r rnd)
  then show ?thesis using assms by (simp add: controllers_ok_resume)
next
  case (Tick n)
  have a: "controllers_ok (s\<lparr>clock := clock s + n\<rparr>)"
    by (rule controllers_ok_fields[OF assms]) simp_all
  have b: "controllers_ok (s\<lparr>clock := clock s + n, debounceTimer := None\<rparr>)"
    by (rule controllers_ok_fields[OF assms]) simp_all
  show ?thesis
    using Tick a b
    by (simp add: tick_def Let_def controllers_ok_performSearch split: option.splits)
next
  case ClearChat
  have "controllers_ok (handleClearChat s)"
    by (rule controllers_ok_fields[OF assms])
      (simp_all add: handleClearChat_def dispatch_def debugLog_def)
  with ClearChat show ?thesis by simp
qed

lemma controllers_ok_run: "controllers_ok s \<Longrightarrow> controllers_ok (run d M es s)"
  by (induction es arbitrary: s) (simp_all add: controllers_ok_step)

lemma controllers_ok_initialPanel: "controllers_ok (initialPanel kw st)"
  by (simp add: controllers_ok_def initialPanel_def)

lemma liveRequests_le: "length (liveRequests s) \<le> length (inFlight s)"
  by (simp add: liveRequests_def)

lemma performSearch_resume_ends_span:
  assumes "consistent s" "rid < length (calls s)" "\<not> settled (calls s ! rid)"
  shows "ended (spans (performSearch_resume M rnd rid r s) ! call_span (calls s ! rid)) = 1"
    "inFlight (performSearch_resume M rnd rid r s) = []"
proof -
  let ?s' = "performSearch_resume M rnd rid r s"
  have c': "consistent ?s'" using assms by (rule consistent_performSearch_resume)
  then have "length (inFlight ?s') = 0"
    by (simp add: consistent_def performSearch_resume_frame)
  then show none: "inFlight ?s' = []" by simp
  have "call_span (calls s ! rid) < length (spans ?s')"
    using assms(1,2) by (simp add: consistent_def performSearch_resume_frame)
  then show "ended (spans ?s' ! call_span (calls s ! rid)) = 1"
    using c' none by (simp add: consistent_def)
qed

lemma performSearch_try_aborted:
  "aborted s (call_signal c) \<Longrightarrow> performSearch_try M rnd c r s = Inl CanceledError"
  by (simp add: performSearch_try_def axios_get_def)

lemma aborted_calls_update: "aborted (s\<lparr>calls := cs\<rparr>) i = aborted s i"
  by (simp add: aborted_def)

lemma performSearch_resume_cancelled:
  assumes "aborted s (call_signal (calls s ! rid))"
  shows "performSearch_resume M rnd rid r s =
    endSpan (call_span (calls s ! rid))
      ((dispatch (setLoading False)
         (setAttribute (call_span (calls s ! rid)) ''search.cancelled'' (BoolAttr True)
           (s\<lparr>calls := (calls s)[rid := (calls s ! rid)\<lparr>settled := True\<rparr>]\<rparr>)))
       \<lparr>isSearchInProgress := False\<rparr>)"
  using assms
  by (simp add: performSearch_resume_def Let_def performSearch_try_aborted aborted_calls_update
      isCancel_def)

lemma sentTitles_append: "sentTitles (xs @ ys) = sentTitles xs @ sentTitles ys"
  by (induction xs rule: sentTitles.induct) simp_all

lemma sentMessages_append: "sentMessages (xs @ ys) = sentMessages xs @ sentMessages ys"
  by (induction xs rule: sentMessages.induct) simp_all

lemma apiErrors_append: "apiErrors (xs @ ys) = apiErrors xs @ apiErrors ys"
  by (induction xs rule: apiErrors.induct) simp_all

lemma mapTalks_error: "mapTalks rs = Inl e \<Longrightarrow> e = TypeError"
  by (induction rs arbitrary: e)
    (auto simp: toTalk_def split: sum.splits option.splits)

lemma handleSearchResults_apiErrors:
  "apiErrors (dispatched (handleSearchResults M rnd data s)) = apiErrors (dispatched s)"
  by (simp add: handleSearchResults_def sendTranscriptAsMessage_def basic_defs Let_def
      apiErrors_append)

lemma performSearch_try_fails:
  assumes "request_fails (aborted s (call_signal c)) r"
  shows "\<exists>e. performSearch_try M rnd c r s = Inl e \<and> \<not> isCancel e"
  using assms
  by (auto simp: request_fails_def performSearch_try_def axios_get_def isCancel_def isl_def
      split: reply.splits option.splits sum.splits dest: mapTalks_error)

lemma performSearch_try_succeeds:
  assumes "\<not> request_fails (aborted s (call_signal c)) r" "\<not> aborted s (call_signal c)"
  shows "\<exists>s'. performSearch_try M rnd c r s = Inr s' \<and>
           error (store s') = error (store s) \<and>
           apiErrors (dispatched s') = apiErrors (dispatched s)"
  using assms
  by (auto simp: request_fails_def performSearch_try_def axios_get_def isl_def Let_def
      handleSearchResults_frame handleSearchResults_apiErrors setAttribute_frame
      split: reply.splits option.splits sum.splits)

lemma request_fails_calls_update:
  "request_fails (aborted (s\<lparr>calls := cs\<rparr>) i) r = request_fails (aborted s i) r"
  by (simp add: aborted_def)

lemma performSearch_resume_flags:
  "\<not> isLoading (store (performSearch_resume M rnd rid r s))"
  "last (dispatched (performSearch_resume M rnd rid r s)) = setLoading False"
  by (simp_all add: performSearch_resume_def Let_def endSpan_frame dispatch_frame)

lemma performSearch_resume_error:
  "error (store (performSearch_resume M rnd rid r s)) =
     (if request_fails (aborted s (call_signal (calls s ! rid))) r
      then Some ''Error fetching talks.'' else error (store s))"
  "apiErrors (dispatched (performSearch_resume M rnd rid r s)) =
     apiErrors (dispatched s) @
     (if request_fails (aborted s (call_signal (calls s ! rid))) r
      then [Some ''Error fetching talks.''] else [])"
proof -
  let ?c = "calls s ! rid"
  let ?s1 = "s\<lparr>calls := (calls s)[rid := ?c\<lparr>settled := True\<rparr>]\<rparr>"
  let ?goal1 = "error (store (performSearch_resume M rnd rid r s)) =
     (if request_fails (aborted s (call_signal ?c)) r
      then Some ''Error fetching talks.'' else error (store s))"
  let ?goal2 = "apiErrors (dispatched (performSearch_resume M rnd rid r s)) =
     apiErrors (dispatched s) @
     (if request_fails (aborted s (call_signal ?c)) r
      then [Some ''Error fetching talks.''] else [])"
  have "?goal1 \<and> ?goal2"
  proof (cases "aborted s (call_signal ?c)")
    case True
    then have nf: "\<not> request_fails (aborted s (call_signal ?c)) r"
      by (simp add: request_fails_def)
    show ?thesis
      using nf by (simp add: performSearch_resume_cancelled[OF True] basic_defs apiErrors_append)
  next
    case na: False
    show ?thesis
    proof (cases "request_fails (aborted s (call_signal ?c)) r")
      case True
      then have "request_fails (aborted ?s1 (call_signal ?c)) r"
        by (simp add: request_fails_calls_update)
      then obtain e where e: "performSearch_try M rnd ?c r ?s1 = Inl e" "\<not> isCancel e"
        using performSearch_try_fails by blast
      show ?thesis
        using True e
        by (simp add: performSearch_resume_def Let_def basic_defs apiErrors_append)
    next
      case False
      then have "\<not> request_fails (aborted ?s1 (call_signal ?c)) r"
        "\<not> aborted ?s1 (call_signal ?c)"
        using na by (simp_all add: request_fails_calls_update aborted_calls_update)
      then obtain s' where s': "performSearch_try M rnd ?c r ?s1 = Inr s'"
        "error (store s') = error (store ?s1)"
        "apiErrors (dispatched s') = apiErrors (dispatched ?s1)"
        using performSearch_try_succeeds by blast
      show ?thesis
        using False s'
        by (simp add: performSearch_resume_def Let_def basic_defs apiErrors_append)
    qed
  qed
  then show ?goal1 ?goal2 by simp_all
qed

lemma handleSearchResults_store:
  assumes "data \<noteq> []"
  shows "talks (store (handleSearchResults M rnd data s)) =
      data ! randomIndex rnd (length data) #
      filter (\<lambda>x. title x \<noteq> title (data ! randomIndex rnd (length data))) data"
    "selectedTalk (store (handleSearchResults M rnd data s)) =
      Some (data ! randomIndex rnd (length data))"
  using assms
  by (simp_all add: handleSearchResults_def sendTranscriptAsMessage_def basic_defs Let_def)

lemma reducer_flags:
  "talks (reducer (setLoading b) st) = talks st"
  "selectedTalk (reducer (setLoading b) st) = selectedTalk st"
  "messages (reducer (setLoading b) st) = messages st"
  "talks (reducer (setApiError e) st) = talks st"
  "selectedTalk (reducer (setApiError e) st) = selectedTalk st"
  "messages (reducer (setApiError e) st) = messages st"
  by simp_all

lemma performSearch_try_strict:
  assumes "isStrictMode s" "performSearch_try M rnd c r s = Inr s'"
  shows "store s' = store s" "sentMessagesRef s' = sentMessagesRef s"
    "lastSearchData s' = lastSearchData s" "dispatched s' = dispatched s"
  using assms
  by (auto simp: performSearch_try_def Let_def setAttribute_def update_span_def
      split: sum.splits prod.splits if_splits option.splits)

lemma performSearch_resume_strict:
  assumes "isStrictMode s"
  shows "talks (store (performSearch_resume M rnd rid r s)) = talks (store s)"
    "selectedTalk (store (performSearch_resume M rnd rid r s)) = selectedTalk (store s)"
    "messages (store (performSearch_resume M rnd rid r s)) = messages (store s)"
    "sentMessagesRef (performSearch_resume M rnd rid r s) = sentMessagesRef s"
    "lastSearchData (performSearch_resume M rnd rid r s) = lastSearchData s"
    "sentMessages (dispatched (performSearch_resume M rnd rid r s)) = sentMessages (dispatched s)"
proof -
  let ?c = "calls s ! rid"
  let ?s1 = "s\<lparr>calls := (calls s)[rid := ?c\<lparr>settled := True\<rparr>]\<rparr>"
  have strict: "isStrictMode ?s1" using assms by simp
  note defs = performSearch_resume_def Let_def basic_defs sentMessages_append
  show "talks (store (performSearch_resume M rnd rid r s)) = talks (store s)"
    using performSearch_try_strict[OF strict]
    by (cases "performSearch_try M rnd ?c r ?s1") (simp_all add: defs)
  show "selectedTalk (store (performSearch_resume M rnd rid r s)) = selectedTalk (store s)"
    using performSearch_try_strict[OF strict]
    by (cases "performSearch_try M rnd ?c r ?s1") (simp_all add: defs)
  show "messages (store (performSearch_resume M rnd rid r s)) = messages (store s)"
    using performSearch_try_strict[OF strict]
    by (cases "performSearch_try M rnd ?c r ?s1") (simp_all add: defs)
  show "sentMessagesRef (performSearch_resume M rnd rid r s) = sentMessagesRef s"
    using performSearch_try_strict[OF strict]
    by (cases "performSearch_try M rnd ?c r ?s1") (simp_all add: defs)
  show "lastSearchData (performSearch_resume M rnd rid r s) = lastSearchData s"
    using performSearch_try_strict[OF strict]
    by (cases "performSearch_try M rnd ?c r ?s1") (simp_all add: defs)
  show "sentMessages (dispatched (performSearch_resume M rnd rid r s)) = sentMessages (dispatched s)"
    using performSearch_try_strict[OF strict]
    by (cases "performSearch_try M rnd ?c r ?s1") (simp_all add: defs)
qed

lemma performSearch_talks:
  "talks (store (performSearch q s)) = talks (store s)"
  "selectedTalk (store (performSearch q s)) = selectedTalk (store s)"
  "messages (store (performSearch q s)) = messages (store s)"
  by (cases "isSearchInProgress s"; simp add: performSearch_skip performSearch_start)+

lemma performSearch_resume_commits:
  assumes "\<not> isStrictMode s" "\<not> aborted s (call_signal (calls s ! rid))"
    "mapTalks rs = Inr data" "data \<noteq> []"
  shows "talks (store (performSearch_resume M rnd rid (Response 200 (Some rs)) s)) =
      data ! randomIndex rnd (length data) #
      filter (\<lambda>x. title x \<noteq> title (data ! randomIndex rnd (length data))) data"
    "selectedTalk (store (performSearch_resume M rnd rid (Response 200 (Some rs)) s)) =
      Some (data ! randomIndex rnd (length data))"
  using assms
  by (simp_all add: performSearch_resume_def performSearch_try_def axios_get_def Let_def
      aborted_calls_update setAttribute_frame endSpan_frame dispatch_frame
      handleSearchResults_store)

lemma performSearch_isStrictMode: "isStrictMode (performSearch q s) = isStrictMode s"
  by (cases "isSearchInProgress s") (simp_all add: performSearch_skip performSearch_start)

lemma strict_step:
  assumes "isStrictMode s" "e \<noteq> Mount" "e \<noteq> ClearChat"
  shows "isStrictMode (step d M e s) \<and>
    talks (store (step d M e s)) = talks (store s) \<and>
    selectedTalk (store (step d M e s)) = selectedTalk (store s) \<and>
    messages (store (step d M e s)) = messages (store s)"
proof (cases e)
  case Cleanup
  then show ?thesis using assms(1)
    by (simp add: mountCleanup_def Let_def debouncedPerformSearch_cancel_def debugLog_def
        abort_def split: option.splits)
next
  case (Change q)
  then show ?thesis using assms(1) by simp
next
  case (KeyDown k)
  then show ?thesis using assms(1) by (simp add: performSearch_isStrictMode performSearch_talks)
next
  case ClickSearch
  then show ?thesis using assms(1) by (simp add: performSearch_isStrictMode performSearch_talks)
next
  case (Settle rid r rnd)
  then show ?thesis using assms(1)
    by (simp add: performSearch_resume_refs performSearch_resume_strict)
next
  case (Tick n)
  then show ?thesis using assms(1)
    by (simp add: tick_def Let_def performSearch_isStrictMode performSearch_talks
        split: option.splits)
qed (use assms in simp_all)

lemma strict_run:
  assumes "isStrictMode s" "Mount \<notin> set es" "ClearChat \<notin> set es"
  shows "isStrictMode (run d M es s) \<and>
    talks (store (run d M es s)) = talks (store s) \<and>
    selectedTalk (store (run d M es s)) = selectedTalk (store s) \<and>
    messages (store (run d M es s)) = messages (store s)"
  using assms
proof (induction es arbitrary: s)
  case Nil
  then show ?case by simp
next
  case (Cons e es)
  then have e: "e \<noteq> Mount" "e \<noteq> ClearChat" by auto
  note st = strict_step[OF Cons.prems(1) e, of d M]
  have "Mount \<notin> set es" "ClearChat \<notin> set es" using Cons.prems by auto
  from Cons.IH[OF _ this, of "step d M e s"] st show ?case by simp
qed

lemma first_mount: 
  "mountEffect True (initialPanel kw st) =
     (initialPanel kw st)\<lparr>mountCounter := 1, isStrictMode := True, console := [LogInitialMount]\<rparr>"
  by (simp add: mountEffect_def initialPanel_def debugLog_def)

lemma second_mount:
  "\<not> isStrictMode (run True M [Mount, Cleanup, Mount] (initialPanel kw st))"
  "calls (run True M [Mount, Cleanup, Mount] (initialPanel kw st)) =
     [\<lparr>call_query = toLowerCase (trim kw), call_signal = 0, call_span = 0, call_time = 0,
       settled = False\<rparr>]"
  "controllers (run True M [Mount, Cleanup, Mount] (initialPanel kw st)) = [False]"
  by (simp_all add: mountEffect_def mountCleanup_def initialPanel_def basic_defs Let_def
      debouncedPerformSearch_cancel_def performSearch_def)

lemma run_append: "run d M (es @ es') s = run d M es' (run d M es s)"
  by (induction es arbitrary: s) simp_all

lemma sent_once_fields:
  assumes "sent_once s" "sentTitles (console s') = sentTitles (console s)"
    "sentMessagesRef s' = sentMessagesRef s"
    "sentMessages (dispatched s') = sentMessages (dispatched s)"
  shows "sent_once s'"
  using assms by (simp add: sent_once_def)

lemma sent_once_sendTranscript:
  assumes "sent_once s"
  shows "sent_once (sendTranscriptAsMessage M t s)"
  using assms
  by (auto simp: sent_once_def sendTranscriptAsMessage_def basic_defs Let_def
      sentTitles_append sentMessages_append)

lemma sent_once_handleSearchResults:
  assumes "sent_once s"
  shows "sent_once (handleSearchResults M rnd data s)"
proof -
  have a: "sent_once (dispatch (setTalks ts) s')" if "sent_once s'" for ts s'
    by (rule sent_once_fields[OF that]) (simp_all add: dispatch_def sentMessages_append)
  have b: "sent_once (dispatch (setSelectedTalk t) s')" if "sent_once s'" for t s'
    by (rule sent_once_fields[OF that]) (simp_all add: dispatch_def sentMessages_append)
  have c: "sent_once (debugLog (LogHandling n) s')" if "sent_once s'" for n s'
    by (rule sent_once_fields[OF that]) (simp_all add: debugLog_def sentTitles_append)
  have d: "sent_once (s'\<lparr>lastSearchData := x\<rparr>)" if "sent_once s'" for x s'
    by (rule sent_once_fields[OF that]) simp_all
  show ?thesis
    unfolding handleSearchResults_def Let_def
    using assms by (simp add: a b c d sent_once_sendTranscript)
qed

lemma sent_once_setAttribute: "sent_once s \<Longrightarrow> sent_once (setAttribute i k v s)"
  by (erule sent_once_fields) (simp_all add: setAttribute_frame)

lemma sent_once_performSearch_try:
  assumes "sent_once s" "performSearch_try M rnd c r s = Inr s'"
  shows "sent_once s'"
  using assms
  by (auto simp: performSearch_try_def Let_def sent_once_setAttribute
      sent_once_handleSearchResults
      split: sum.splits prod.splits if_splits option.splits)

lemma sent_once_performSearch: "sent_once s \<Longrightarrow> sent_once (performSearch q s)"
  by (erule sent_once_fields)
    (simp_all add: performSearch_def basic_defs Let_def sentTitles_append sentMessages_append
      split: option.splits)

lemma sent_once_resume:
  assumes "sent_once s"
  shows "sent_once (performSearch_resume M rnd rid r s)"
proof -
  let ?c = "calls s ! rid"
  let ?s1 = "s\<lparr>calls := (calls s)[rid := ?c\<lparr>settled := True\<rparr>]\<rparr>"
  have s1: "sent_once ?s1" by (rule sent_once_fields[OF assms]) simp_all
  have fin: "sent_once (endSpan i ((dispatch (setLoading False) s')\<lparr>isSearchInProgress := False\<rparr>))"
    if "sent_once s'" for s' i
    by (rule sent_once_fields[OF that]) (simp_all add: basic_defs sentMessages_append)
  show ?thesis
  proof (cases "performSearch_try M rnd ?c r ?s1")
    case (Inr s')
    then have "sent_once s'" using sent_once_performSearch_try[OF s1] by blast
    then show ?thesis using Inr by (simp add: performSearch_resume_def Let_def fin)
  next
    case (Inl e)
    have "sent_once (dispatch (setApiError x) (recordException i e (debugLog (LogError e) ?s1)))" for x i
      by (rule sent_once_fields[OF s1])
        (simp_all add: basic_defs sentMessages_append sentTitles_append)
    moreover have "sent_once (setAttribute i k v ?s1)" for i k v
      by (rule sent_once_setAttribute[OF s1])
    ultimately show ?thesis using Inl by (simp add: performSearch_resume_def Let_def fin)
  qed
qed

lemma sent_once_step:
  assumes "sent_once s"
  shows "sent_once (step d M e s)"
proof (cases e)
  case Mount
  have "sent_once (s\<lparr>mountCounter := n, isStrictMode := b\<rparr>)" for n b
    by (rule sent_once_fields[OF assms]) simp_all
  moreover have "sent_once s' \<Longrightarrow> sent_once (debugLog LogInitialMount s')" for s'
    by (erule sent_once_fields) (simp_all add: debugLog_def sentTitles_append)
  moreover have "sent_once s' \<Longrightarrow> sent_once (debugLog LogSubsequentMount s')" for s'
    by (erule sent_once_fields) (simp_all add: debugLog_def sentTitles_append)
  ultimately show ?thesis
    using Mount assms by (simp add: mountEffect_def Let_def sent_once_performSearch)
next
  case Cleanup
  have "sent_once (mountCleanup d s)"
    by (rule sent_once_fields[OF assms])
      (simp_all add: mountCleanup_def Let_def debouncedPerformSearch_cancel_def debugLog_def
        abort_def sentTitles_append split: option.splits)
  with Cleanup show ?thesis by simp
next
  case (Change q)
  have "sent_once (s\<lparr>searchQuery := q\<rparr>)"
    by (rule sent_once_fields[OF assms]) simp_all
  with Change show ?thesis by simp
next
  case (KeyDown k)
  then show ?thesis using assms by (simp add: sent_once_performSearch)
next
  case ClickSearch
  then show ?thesis using assms by (simp add: sent_once_performSearch)
next
  case (Settle rid r rnd)
  then show ?thesis using assms by (simp add: sent_once_resume)
next
  case (Tick n)
  have a: "sent_once (s\<lparr>clock := clock s + n\<rparr>)"
    by (rule sent_once_fields[OF assms]) simp_all
  have b: "sent_once (s\<lparr>clock := clock s + n, debounceTimer := None\<rparr>)"
    by (rule sent_once_fields[OF assms]) simp_all
  show ?thesis
    using Tick a b by (simp add: tick_def Let_def sent_once_performSearch split: option.splits)
next
  case ClearChat
  have "sent_once (handleClearChat s)"
    by (rule sent_once_fields[OF assms])
      (simp_all add: handleClearChat_def dispatch_def debugLog_def sentTitles_append
        sentMessages_append)
  with ClearChat show ?thesis by simp
qed

lemma sent_once_run: "sent_once s \<Longrightarrow> sent_once (run d M es s)"
  by (induction es arbitrary: s) (simp_all add: sent_once_step)

lemma sent_once_initialPanel: "sent_once (initialPanel kw st)"
  by (simp add: sent_once_def initialPanel_def)

lemma handleSearchResults_dispatched:
  assumes "data \<noteq> []"
  shows "title (data ! randomIndex rnd (length data)) \<notin> sentMessagesRef s \<Longrightarrow>
      dispatched (handleSearchResults M rnd data s) = dispatched s @
        [setTalks data,
         setTalks (data ! randomIndex rnd (length data) #
           filter (\<lambda>x. title x \<noteq> title (data ! randomIndex rnd (length data))) data),
         setSelectedTalk (data ! randomIndex rnd (length data)),
         sendMessage \<lparr>persona = presenterDisplayName (data ! randomIndex rnd (length data)),
           role = ''bot'', sender = ''bot'',
           msg_text = transcriptMessage M (data ! randomIndex rnd (length data)),
           hidden = False\<rparr>]"
    "title (data ! randomIndex rnd (length data)) \<notin> sentMessagesRef s \<Longrightarrow>
      messages (store (handleSearchResults M rnd data s)) = messages (store s) @
        [\<lparr>persona = presenterDisplayName (data ! randomIndex rnd (length data)),
           role = ''bot'', sender = ''bot'',
           msg_text = transcriptMessage M (data ! randomIndex rnd (length data)),
           hidden = False\<rparr>]"
    "title (data ! randomIndex rnd (length data)) \<in> sentMessagesRef s \<Longrightarrow>
      dispatched (handleSearchResults M rnd data s) = dispatched s @
        [setTalks data,
         setTalks (data ! randomIndex rnd (length data) #
           filter (\<lambda>x. title x \<noteq> title (data ! randomIndex rnd (length data))) data),
         setSelectedTalk (data ! randomIndex rnd (length data))]"
    "title (data ! randomIndex rnd (length data)) \<in> sentMessagesRef s \<Longrightarrow>
      messages (store (handleSearchResults M rnd data s)) = messages (store s)"
  using assms
  by (simp_all add: handleSearchResults_def sendTranscriptAsMessage_def basic_defs Let_def)

lemma debounceTimer_basic:
  "debounceTimer (dispatch a s) = debounceTimer s"
  "debounceTimer (debugLog m s) = debounceTimer s"
  "debounceTimer (setAttribute i k v s) = debounceTimer s"
  "debounceTimer (recordException i e s) = debounceTimer s"
  "debounceTimer (endSpan i s) = debounceTimer s"
  "debounceTimer (abort s) = debounceTimer s"
  by (simp_all add: basic_defs split: option.splits)

lemma debounceTimer_performSearch: "debounceTimer (performSearch q s) = debounceTimer s"
  by (simp add: performSearch_def basic_defs Let_def split: option.splits)

lemma debounceTimer_handleSearchResults:
  "debounceTimer (handleSearchResults M rnd data s) = debounceTimer s"
  by (simp add: handleSearchResults_def sendTranscriptAsMessage_def basic_defs Let_def)

lemma debounceTimer_try:
  "performSearch_try M rnd c r s = Inr s' \<Longrightarrow> debounceTimer s' = debounceTimer s"
  by (auto simp: performSearch_try_def Let_def debounceTimer_handleSearchResults
      debounceTimer_basic split: sum.splits prod.splits if_splits option.splits)

lemma debounceTimer_resume:
  "debounceTimer (performSearch_resume M rnd rid r s) = debounceTimer s"
proof (cases "performSearch_try M rnd (calls s ! rid) r
    (s\<lparr>calls := (calls s)[rid := (calls s ! rid)\<lparr>settled := True\<rparr>]\<rparr>)")
  case (Inl e)
  then show ?thesis
    by (simp add: performSearch_resume_def Let_def debounceTimer_basic)
next
  case (Inr s')
  then show ?thesis
    using debounceTimer_try[OF Inr]
    by (simp add: performSearch_resume_def Let_def debounceTimer_basic)
qed

lemma debounceTimer_step:
  "debounceTimer s = None \<Longrightarrow> debounceTimer (step d M e s) = None"
  by (cases e)
    (simp_all add: mountEffect_def mountCleanup_def Let_def debounceTimer_performSearch
      debounceTimer_basic debounceTimer_resume debouncedPerformSearch_cancel_def tick_def
      handleClearChat_def)

lemma debounceTimer_run:
  "debounceTimer s = None \<Longrightarrow> debounceTimer (run d M es s) = None"
  by (induction es arbitrary: s) (simp_all add: debounceTimer_step)

section \<open>The Chat Panel clears the chat\<close>

text \<open>
  C8. Invoking \<open>handleClearChat\<close> dispatches exactly the action \<open>clearMessages\<close>; afterwards
  the chat message history of the store is empty, and the talk list, the selected talk and
  the loading and error flags are the ones from before.
\<close>

theorem handleClearChat_clears_only_messages:
  "dispatched (handleClearChat s) = dispatched s @ [clearMessages] \<and>
   messages (store (handleClearChat s)) = [] \<and>
   talks (store (handleClearChat s)) = talks (store s) \<and>
   selectedTalk (store (handleClearChat s)) = selectedTalk (store s) \<and>
   isLoading (store (handleClearChat s)) = isLoading (store s) \<and>
   error (store (handleClearChat s)) = error (store s)"
  by (simp add: handleClearChat_def dispatch_def debugLog_def)

section \<open>One request in flight\<close>

text \<open>
  C1. A call of \<open>performSearch\<close> while a search is in progress issues no request and
  touches no controller. Otherwise it aborts the controller held in \<open>abortControllerRef\<close>,
  creates a new one and issues one request with the new signal. In every state the panel
  can reach from its initial state, at most one request is in flight, hence at most one
  that is not aborted; and when no search is in progress no request is in flight, and a
  new call of \<open>performSearch\<close> leaves every controller created earlier aborted.
\<close>

theorem performSearch_one_request_in_flight:
  "(isSearchInProgress s \<longrightarrow>
      calls (performSearch q s) = calls s \<and> controllers (performSearch q s) = controllers s) \<and>
   (\<not> isSearchInProgress s \<longrightarrow>
      controllers (performSearch q s) = controllers (abort s) @ [False] \<and>
      (\<forall>i. abortControllerRef s = Some i \<and> i < length (controllers s)
           \<longrightarrow> aborted (performSearch q s) i) \<and>
      calls (performSearch q s) = calls s @
        [\<lparr>call_query = toLowerCase (trim q), call_signal = length (controllers s),
          call_span = length (spans s), call_time = clock s, settled = False\<rparr>]) \<and>
   length (inFlight (run isDevelopment M es (initialPanel kw st))) \<le> 1 \<and>
   length (liveRequests (run isDevelopment M es (initialPanel kw st))) \<le> 1 \<and>
   (\<not> isSearchInProgress (run isDevelopment M es (initialPanel kw st)) \<longrightarrow>
      inFlight (run isDevelopment M es (initialPanel kw st)) = [] \<and>
      (\<forall>j < length (controllers (run isDevelopment M es (initialPanel kw st))).
          aborted (performSearch q (run isDevelopment M es (initialPanel kw st))) j))"
proof -
  let ?s = "run isDevelopment M es (initialPanel kw st)"
  have c: "consistent ?s" by (rule consistent_run[OF consistent_initialPanel])
  have k: "controllers_ok ?s" by (rule controllers_ok_run[OF controllers_ok_initialPanel])
  have one: "length (inFlight ?s) \<le> 1" using c by (simp add: consistent_def)
  then have live: "length (liveRequests ?s) \<le> 1"
    using liveRequests_le[of ?s] by linarith
  have idle: "inFlight ?s = []" if "\<not> isSearchInProgress ?s"
    using c that by (simp add: consistent_def)
  have prev: "aborted (performSearch q ?s) j"
    if "\<not> isSearchInProgress ?s" "j < length (controllers ?s)" for j
    using abort_aborts_all[OF k that(2)] that
    by (simp add: aborted_def performSearch_start abort_frame nth_append)
  have skip: "isSearchInProgress s \<longrightarrow>
      calls (performSearch q s) = calls s \<and> controllers (performSearch q s) = controllers s"
    by (simp add: performSearch_skip)
  have start: "\<not> isSearchInProgress s \<longrightarrow>
      controllers (performSearch q s) = controllers (abort s) @ [False] \<and>
      (\<forall>i. abortControllerRef s = Some i \<and> i < length (controllers s)
           \<longrightarrow> aborted (performSearch q s) i) \<and>
      calls (performSearch q s) = calls s @
        [\<lparr>call_query = toLowerCase (trim q), call_signal = length (controllers s),
          call_span = length (spans s), call_time = clock s, settled = False\<rparr>]"
    by (auto simp: performSearch_start aborted_def abort_frame nth_append abort_def)
  show ?thesis
    using skip start one live idle prev by blast
qed

theorem performSearch_one_request_in_flight_witness:
  "isSearchInProgress (mountEffect False panel0) \<and>
   calls (performSearch ''more'' (mountEffect False panel0)) = calls (mountEffect False panel0) \<and>
   \<not> isSearchInProgress (run False sdgTitles0 [Mount, Settle 0 NetworkFailure 0] panel0) \<and>
   abortControllerRef (run False sdgTitles0 [Mount, Settle 0 NetworkFailure 0] panel0) = Some 0 \<and>
   aborted (performSearch ''more''
     (run False sdgTitles0 [Mount, Settle 0 NetworkFailure 0] panel0)) 0 \<and>
   length (inFlight (run False sdgTitles0 [Mount, KeyDown ''Enter'', ClickSearch] panel0)) \<le> 1"
proof -
  let ?s1 = "mountEffect False (initialPanel ''Water'' store0)"
  let ?s2 = "run False sdgTitles0 [Mount, Settle 0 NetworkFailure 0] (initialPanel ''Water'' store0)"
  have a: "isSearchInProgress ?s1" by code_simp
  have b: "\<not> isSearchInProgress ?s2" "abortControllerRef ?s2 = Some 0"
    "0 < length (controllers ?s2)" by code_simp+
  have t1: "calls (performSearch ''more'' ?s1) = calls ?s1"
    using performSearch_one_request_in_flight[where s = ?s1 and q = "''more''"] a by blast
  have t2: "aborted (performSearch ''more'' ?s2) 0"
    using performSearch_one_request_in_flight[where s = ?s2 and q = "''more''"] b by blast
  have t3: "length (inFlight (run False sdgTitles0 [Mount, KeyDown ''Enter'', ClickSearch]
      (initialPanel ''Water'' store0))) \<le> 1"
    using performSearch_one_request_in_flight[where isDevelopment = False and M = sdgTitles0
        and es = "[Mount, KeyDown ''Enter'', ClickSearch]" and kw = "''Water''" and st = store0]
    by blast
  show ?thesis unfolding panel0_def using a b t1 t2 t3 by blast
qed

section \<open>Search spans\<close>

text \<open>
  C9. The span a call of \<open>performSearch\<close> starts is ended exactly once on every path. On
  the skipped path the new span has been ended once when the call returns. Otherwise the
  new span is open while the request is awaited. In every state the panel can reach from
  its initial state, each span has been ended once, except the span of a request still in
  flight, which has not been ended; and when a request in flight settles, whatever the
  reply (success, failure or cancellation), its span has then been ended once and no
  request is in flight.
\<close>

theorem performSearch_span_ended_once:
  "(isSearchInProgress s \<longrightarrow>
      spans (performSearch q s) = spans s @
        [\<lparr>span_name = ''search_talks'',
          attributes = [(''search.query'', StringAttr (toLowerCase (trim q))),
                        (''search.skipped'', BoolAttr True)],
          exceptions = [], ended = 1\<rparr>]) \<and>
   (\<not> isSearchInProgress s \<longrightarrow>
      spans (performSearch q s) = spans s @
        [\<lparr>span_name = ''search_talks'',
          attributes = [(''search.query'', StringAttr (toLowerCase (trim q)))],
          exceptions = [], ended = 0\<rparr>] \<and>
      call_span (last (calls (performSearch q s))) = length (spans s) \<and>
      \<not> settled (last (calls (performSearch q s)))) \<and>
   (\<forall>i < length (spans (run isDevelopment M es (initialPanel kw st))).
      ended (spans (run isDevelopment M es (initialPanel kw st)) ! i) =
        (if i \<in> call_span ` set (inFlight (run isDevelopment M es (initialPanel kw st)))
         then 0 else 1)) \<and>
   (rid < length (calls (run isDevelopment M es (initialPanel kw st))) \<and>
    \<not> settled (calls (run isDevelopment M es (initialPanel kw st)) ! rid) \<longrightarrow>
      ended (spans (performSearch_resume M rnd rid r
                (run isDevelopment M es (initialPanel kw st))) !
             call_span (calls (run isDevelopment M es (initialPanel kw st)) ! rid)) = 1 \<and>
      inFlight (performSearch_resume M rnd rid r
                (run isDevelopment M es (initialPanel kw st))) = [])"
proof -
  let ?s = "run isDevelopment M es (initialPanel kw st)"
  have c: "consistent ?s" by (rule consistent_run[OF consistent_initialPanel])
  have skip: "isSearchInProgress s \<longrightarrow>
      spans (performSearch q s) = spans s @
        [\<lparr>span_name = ''search_talks'',
          attributes = [(''search.query'', StringAttr (toLowerCase (trim q))),
                        (''search.skipped'', BoolAttr True)],
          exceptions = [], ended = 1\<rparr>]"
    by (simp add: performSearch_skip)
  have start: "\<not> isSearchInProgress s \<longrightarrow>
      spans (performSearch q s) = spans s @
        [\<lparr>span_name = ''search_talks'',
          attributes = [(''search.query'', StringAttr (toLowerCase (trim q)))],
          exceptions = [], ended = 0\<rparr>] \<and>
      call_span (last (calls (performSearch q s))) = length (spans s) \<and>
      \<not> settled (last (calls (performSearch q s)))"
    by (simp add: performSearch_start)
  have inv: "\<forall>i < length (spans ?s).
      ended (spans ?s ! i) = (if i \<in> call_span ` set (inFlight ?s) then 0 else 1)"
    using c by (simp add: consistent_def)
  have settle: "rid < length (calls ?s) \<and> \<not> settled (calls ?s ! rid) \<longrightarrow>
      ended (spans (performSearch_resume M rnd rid r ?s) ! call_span (calls ?s ! rid)) = 1 \<and>
      inFlight (performSearch_resume M rnd rid r ?s) = []"
    using performSearch_resume_ends_span[OF c] by blast
  show ?thesis
    using skip start inv settle by blast
qed

theorem performSearch_span_ended_once_witness:
  "isSearchInProgress (mountEffect False panel0) \<and>
   map ended (spans (performSearch ''more'' (mountEffect False panel0))) = [0, 1] \<and>
   \<not> isSearchInProgress panel0 \<and>
   map ended (spans (performSearch ''more'' panel0)) = [0] \<and>
   \<not> settled (calls (run True sdgTitles0 [Mount, Cleanup, Mount, Cleanup] panel0) ! 0) \<and>
   ended (spans (performSearch_resume sdgTitles0 0 0 NetworkFailure
           (run True sdgTitles0 [Mount, Cleanup, Mount, Cleanup] panel0)) ! 0) = 1"
proof -
  let ?s0 = "initialPanel ''Water'' store0"
  let ?s1 = "mountEffect False ?s0"
  let ?es = "[Mount, Cleanup, Mount, Cleanup]"
  let ?s2 = "run True sdgTitles0 ?es ?s0"
  have a: "isSearchInProgress ?s1" "map ended (spans ?s1) = [0]" by code_simp+
  have b: "\<not> isSearchInProgress ?s0" "spans ?s0 = []" by code_simp+
  have d: "0 < length (calls ?s2)" "\<not> settled (calls ?s2 ! 0)" "call_span (calls ?s2 ! 0) = 0"
    by code_simp+
  have t1: "map ended (spans (performSearch ''more'' ?s1)) = [0, 1]"
    using performSearch_span_ended_once[where s = ?s1 and q = "''more''"] a by simp
  have t2: "map ended (spans (performSearch ''more'' ?s0)) = [0]"
    using performSearch_span_ended_once[where s = ?s0 and q = "''more''"] b by simp
  have t3: "ended (spans (performSearch_resume sdgTitles0 0 0 NetworkFailure ?s2) !
               call_span (calls ?s2 ! 0)) = 1"
    using performSearch_span_ended_once[where isDevelopment = True and M = sdgTitles0
        and es = ?es and kw = "''Water''" and st = store0 and rid = 0 and rnd = 0
        and r = NetworkFailure] d
    by blast
  show ?thesis unfolding panel0_def using a b d t1 t2 t3 by simp
qed

section \<open>Cancelled requests\<close>

text \<open>
  C5. When the signal of a request in flight has been aborted, the rest of \<open>performSearch\<close>
  ignores whatever the network replies: the only action it dispatches is
  \<open>setLoading False\<close>, so no API error is dispatched and the error, the talk list, the
  selected talk and the chat messages of the store stay as they were; the sent set, the
  console and local storage stay as they were; and the span of the request carries the
  attribute \<open>search.cancelled\<close>, records no exception and is ended.
\<close>

theorem cancelled_request_is_ignored:
  assumes "aborted s (call_signal (calls s ! rid))"
    and "call_span (calls s ! rid) < length (spans s)"
  shows "dispatched (performSearch_resume M rnd rid r s) = dispatched s @ [setLoading False] \<and>
    store (performSearch_resume M rnd rid r s) = (store s)\<lparr>isLoading := False\<rparr> \<and>
    sentMessagesRef (performSearch_resume M rnd rid r s) = sentMessagesRef s \<and>
    console (performSearch_resume M rnd rid r s) = console s \<and>
    lastSearchData (performSearch_resume M rnd rid r s) = lastSearchData s \<and>
    spans (performSearch_resume M rnd rid r s) ! call_span (calls s ! rid) =
      (spans s ! call_span (calls s ! rid))
        \<lparr>attributes := attributes (spans s ! call_span (calls s ! rid)) @
                         [(''search.cancelled'', BoolAttr True)],
         ended := Suc (ended (spans s ! call_span (calls s ! rid)))\<rparr>"
  using assms(2)
  by (simp add: performSearch_resume_cancelled[OF assms(1)] basic_defs)

theorem cancelled_request_is_ignored_witness:
  "aborted (run True sdgTitles0 [Mount, Cleanup, Mount, Cleanup] panel0)
     (call_signal (calls (run True sdgTitles0 [Mount, Cleanup, Mount, Cleanup] panel0) ! 0)) \<and>
   call_span (calls (run True sdgTitles0 [Mount, Cleanup, Mount, Cleanup] panel0) ! 0)
     < length (spans (run True sdgTitles0 [Mount, Cleanup, Mount, Cleanup] panel0)) \<and>
   dispatched (performSearch_resume sdgTitles0 0 0 (Response 200 (Some [Some docA]))
       (run True sdgTitles0 [Mount, Cleanup, Mount, Cleanup] panel0)) =
     [setLoading True, setApiError None, setLoading False] \<and>
   store (performSearch_resume sdgTitles0 0 0 (Response 200 (Some [Some docA]))
       (run True sdgTitles0 [Mount, Cleanup, Mount, Cleanup] panel0)) = store0"
proof -
  let ?s = "run True sdgTitles0 [Mount, Cleanup, Mount, Cleanup] panel0"
  have a: "aborted ?s (call_signal (calls ?s ! 0))" by code_simp
  have b: "call_span (calls ?s ! 0) < length (spans ?s)" by code_simp
  have c: "dispatched ?s = [setLoading True, setApiError None]" by code_simp
  have d: "(store ?s)\<lparr>isLoading := False\<rparr> = store0" by code_simp
  show ?thesis
    using cancelled_request_is_ignored[OF a b, of sdgTitles0 0 "Response 200 (Some [Some docA])"]
      a b c d by simp
qed

section \<open>Loading and error flags\<close>

text \<open>
  C6. A call of \<open>performSearch\<close> that is not skipped dispatches \<open>setLoading True\<close> and
  \<open>setApiError None\<close> (the request is issued after them), so loading is set and the error
  is cleared. When the request settles, the rest of \<open>performSearch\<close> sets the error to
  \<open>Error fetching talks.\<close> exactly when the request failed for a reason other than
  cancellation (\<open>request_fails\<close>): it dispatches that \<open>setApiError\<close> then and no
  \<open>setApiError\<close> otherwise, leaving the error as it was. On every path the last
  action dispatched is \<open>setLoading False\<close> and loading is off. For a search that
  settles right after it started, the error is the message on failure and \<open>None\<close>
  otherwise.
\<close>

theorem performSearch_loading_error_flags:
  "(\<not> isSearchInProgress s \<longrightarrow>
      dispatched (performSearch q s) = dispatched s @ [setLoading True, setApiError None] \<and>
      isLoading (store (performSearch q s)) \<and>
      error (store (performSearch q s)) = None) \<and>
   \<not> isLoading (store (performSearch_resume M rnd rid r s)) \<and>
   last (dispatched (performSearch_resume M rnd rid r s)) = setLoading False \<and>
   error (store (performSearch_resume M rnd rid r s)) =
     (if request_fails (aborted s (call_signal (calls s ! rid))) r
      then Some ''Error fetching talks.'' else error (store s)) \<and>
   apiErrors (dispatched (performSearch_resume M rnd rid r s)) =
     apiErrors (dispatched s) @
     (if request_fails (aborted s (call_signal (calls s ! rid))) r
      then [Some ''Error fetching talks.''] else []) \<and>
   (\<not> isSearchInProgress s \<longrightarrow>
      error (store (performSearch_resume M rnd (length (calls s)) r (performSearch q s))) =
        (if request_fails False r then Some ''Error fetching talks.'' else None))"
proof -
  have start: "\<not> isSearchInProgress s \<longrightarrow>
      dispatched (performSearch q s) = dispatched s @ [setLoading True, setApiError None] \<and>
      isLoading (store (performSearch q s)) \<and>
      error (store (performSearch q s)) = None"
    by (simp add: performSearch_start)
  have flow: "error (store (performSearch_resume M rnd (length (calls s)) r (performSearch q s))) =
        (if request_fails False r then Some ''Error fetching talks.'' else None)"
    if idle: "\<not> isSearchInProgress s"
  proof -
    have "\<not> aborted (performSearch q s)
        (call_signal (calls (performSearch q s) ! length (calls s)))"
      using idle by (simp add: performSearch_start aborted_def abort_frame nth_append)
    then show ?thesis
      using idle by (simp add: performSearch_resume_error performSearch_start)
  qed
  show ?thesis
    using start flow performSearch_resume_flags[of M rnd rid r s]
      performSearch_resume_error[of M rnd rid r s]
    by blast
qed

theorem performSearch_loading_error_flags_witness:
  "\<not> isSearchInProgress panel0 \<and>
   dispatched (performSearch ''Water'' panel0) = [setLoading True, setApiError None] \<and>
   error (store (performSearch_resume sdgTitles0 0 0 NetworkFailure
                   (performSearch ''Water'' panel0))) = Some ''Error fetching talks.'' \<and>
   error (store (performSearch_resume sdgTitles0 0 0 (Response 200 (Some [Some docA]))
                   (performSearch ''Water'' panel0))) = None \<and>
   \<not> isLoading (store (performSearch_resume sdgTitles0 0 0 NetworkFailure
                   (performSearch ''Water'' panel0)))"
proof -
  have a: "\<not> isSearchInProgress panel0" "dispatched panel0 = []" "length (calls panel0) = 0"
    by code_simp+
  have f: "request_fails False NetworkFailure"
    "\<not> request_fails False (Response 200 (Some [Some docA]))"
    by code_simp+
  have t1: "dispatched (performSearch ''Water'' panel0) = [setLoading True, setApiError None]"
    using performSearch_loading_error_flags[where s = panel0 and q = "''Water''"] a by simp
  have t2: "error (store (performSearch_resume sdgTitles0 0 0 NetworkFailure
                   (performSearch ''Water'' panel0))) = Some ''Error fetching talks.''"
    using performSearch_loading_error_flags[where s = panel0 and q = "''Water''"
        and M = sdgTitles0 and rnd = 0 and r = NetworkFailure] a f by simp
  have t3: "error (store (performSearch_resume sdgTitles0 0 0 (Response 200 (Some [Some docA]))
                   (performSearch ''Water'' panel0))) = None"
    using performSearch_loading_error_flags[where s = panel0 and q = "''Water''"
        and M = sdgTitles0 and rnd = 0 and r = "Response 200 (Some [Some docA])"] a f by simp
  have t4: "\<not> isLoading (store (performSearch_resume sdgTitles0 0 0 NetworkFailure
                   (performSearch ''Water'' panel0)))"
    using performSearch_loading_error_flags[where s = "performSearch ''Water'' panel0"
        and M = sdgTitles0 and rnd = 0 and rid = 0 and r = NetworkFailure] by blast
  show ?thesis using a t1 t2 t3 t4 by simp
qed

section \<open>The strict-mode guard\<close>

text \<open>
  C7. In development the first mount effect turns \<open>isStrictMode\<close> on and issues no
  request. While \<open>isStrictMode\<close> is on, the rest of \<open>performSearch\<close> leaves the talk list,
  the selected talk and the chat messages of the store as they were, for every reply; and
  so does every sequence of events after the first mount that contains neither another
  mount nor a clearing of the chat. The second mount turns \<open>isStrictMode\<close> off and issues
  the search, and when that request is answered with talks, the reordered talk list and
  the selected talk are committed to the store.
\<close>

theorem strict_mode_guard:
  "isStrictMode (mountEffect True (initialPanel kw st)) \<and>
   calls (mountEffect True (initialPanel kw st)) = [] \<and>
   (isStrictMode s \<longrightarrow>
      talks (store (performSearch_resume M rnd rid r s)) = talks (store s) \<and>
      selectedTalk (store (performSearch_resume M rnd rid r s)) = selectedTalk (store s) \<and>
      messages (store (performSearch_resume M rnd rid r s)) = messages (store s)) \<and>
   (Mount \<notin> set es \<and> ClearChat \<notin> set es \<longrightarrow>
      isStrictMode (run True M (Mount # es) (initialPanel kw st)) \<and>
      talks (store (run True M (Mount # es) (initialPanel kw st))) = talks st \<and>
      selectedTalk (store (run True M (Mount # es) (initialPanel kw st))) = selectedTalk st \<and>
      messages (store (run True M (Mount # es) (initialPanel kw st))) = messages st) \<and>
   \<not> isStrictMode (run True M [Mount, Cleanup, Mount] (initialPanel kw st)) \<and>
   length (calls (run True M [Mount, Cleanup, Mount] (initialPanel kw st))) = 1 \<and>
   (mapTalks rs = Inr data \<and> data \<noteq> [] \<longrightarrow>
      talks (store (run True M [Mount, Cleanup, Mount, Settle 0 (Response 200 (Some rs)) rnd]
                     (initialPanel kw st))) =
        data ! randomIndex rnd (length data) #
        filter (\<lambda>x. title x \<noteq> title (data ! randomIndex rnd (length data))) data \<and>
      selectedTalk (store (run True M [Mount, Cleanup, Mount, Settle 0 (Response 200 (Some rs)) rnd]
                     (initialPanel kw st))) =
        Some (data ! randomIndex rnd (length data)))"
proof -
  let ?s0 = "initialPanel kw st"
  let ?s1 = "mountEffect True ?s0"
  let ?s3 = "run True M [Mount, Cleanup, Mount] ?s0"
  have m1: "isStrictMode ?s1" "calls ?s1 = []" "store ?s1 = st"
    unfolding first_mount by (simp_all add: initialPanel_def)
  have guard: "isStrictMode s \<longrightarrow>
      talks (store (performSearch_resume M rnd rid r s)) = talks (store s) \<and>
      selectedTalk (store (performSearch_resume M rnd rid r s)) = selectedTalk (store s) \<and>
      messages (store (performSearch_resume M rnd rid r s)) = messages (store s)"
    by (simp add: performSearch_resume_strict)
  have during: "Mount \<notin> set es \<and> ClearChat \<notin> set es \<longrightarrow>
      isStrictMode (run True M (Mount # es) ?s0) \<and>
      talks (store (run True M (Mount # es) ?s0)) = talks st \<and>
      selectedTalk (store (run True M (Mount # es) ?s0)) = selectedTalk st \<and>
      messages (store (run True M (Mount # es) ?s0)) = messages st"
    using strict_run[OF m1(1), of es True M] m1(3) by simp
  have m3: "\<not> isStrictMode ?s3" "length (calls ?s3) = 1"
    "\<not> settled (calls ?s3 ! 0)" "\<not> aborted ?s3 (call_signal (calls ?s3 ! 0))"
    by (simp_all add: second_mount aborted_def del: run.simps)
  have commit: "mapTalks rs = Inr data \<and> data \<noteq> [] \<longrightarrow>
      talks (store (run True M [Mount, Cleanup, Mount, Settle 0 (Response 200 (Some rs)) rnd] ?s0)) =
        data ! randomIndex rnd (length data) #
        filter (\<lambda>x. title x \<noteq> title (data ! randomIndex rnd (length data))) data \<and>
      selectedTalk (store (run True M [Mount, Cleanup, Mount, Settle 0 (Response 200 (Some rs)) rnd] ?s0)) =
        Some (data ! randomIndex rnd (length data))"
  proof
    assume h: "mapTalks rs = Inr data \<and> data \<noteq> []"
    have "run True M [Mount, Cleanup, Mount, Settle 0 (Response 200 (Some rs)) rnd] ?s0 =
        step True M (Settle 0 (Response 200 (Some rs)) rnd) ?s3"
      using run_append[of True M "[Mount, Cleanup, Mount]" "[Settle 0 (Response 200 (Some rs)) rnd]" ?s0]
      by simp
    also have "\<dots> = performSearch_resume M rnd 0 (Response 200 (Some rs)) ?s3"
      using m3 by simp
    finally show "talks (store (run True M [Mount, Cleanup, Mount, Settle 0 (Response 200 (Some rs)) rnd] ?s0)) =
        data ! randomIndex rnd (length data) #
        filter (\<lambda>x. title x \<noteq> title (data ! randomIndex rnd (length data))) data \<and>
      selectedTalk (store (run True M [Mount, Cleanup, Mount, Settle 0 (Response 200 (Some rs)) rnd] ?s0)) =
        Some (data ! randomIndex rnd (length data))"
      using performSearch_resume_commits[OF m3(1) m3(4), of rs data M rnd] h by simp
  qed
  show ?thesis
    using m1(1,2) guard during m3(1,2) commit by blast
qed

theorem strict_mode_guard_witness:
  "isStrictMode (mountEffect True panel0) \<and>
   talks (store (performSearch_resume sdgTitles0 0 0 (Response 200 (Some [Some docA]))
     (performSearch ''Water'' (mountEffect True panel0)))) = [] \<and>
   Mount \<notin> set [KeyDown ''Enter'', Settle 0 (Response 200 (Some [Some docA])) 0] \<and>
   ClearChat \<notin> set [KeyDown ''Enter'', Settle 0 (Response 200 (Some [Some docA])) 0] \<and>
   talks (store (run True sdgTitles0
     [Mount, KeyDown ''Enter'', Settle 0 (Response 200 (Some [Some docA])) 0] panel0)) = [] \<and>
   mapTalks [Some docA] = Inr [talkA] \<and>
   talks (store (run True sdgTitles0
     [Mount, Cleanup, Mount, Settle 0 (Response 200 (Some [Some docA])) 0] panel0)) = [talkA]"
proof -
  let ?r = "Response 200 (Some [Some docA])"
  let ?es = "[KeyDown ''Enter'', Settle 0 ?r 0]"
  let ?s = "performSearch ''Water'' (mountEffect True (initialPanel ''Water'' store0))"
  have a: "isStrictMode ?s" "talks (store ?s) = []" "talks store0 = []" by code_simp+
  have b: "Mount \<notin> set ?es" "ClearChat \<notin> set ?es" by simp_all
  have c: "mapTalks [Some docA] = Inr [talkA]" "[talkA] \<noteq> []"
    by code_simp+
  have c': "[talkA] ! randomIndex 0 (length [talkA]) #
      filter (\<lambda>x. title x \<noteq> title ([talkA] ! randomIndex 0 (length [talkA]))) [talkA] = [talkA]"
    by code_simp
  have t1: "talks (store (performSearch_resume sdgTitles0 0 0 ?r ?s)) = talks (store ?s)"
    using strict_mode_guard[where s = ?s and M = sdgTitles0 and rnd = 0 and rid = 0 and r = ?r] a
    by blast
  have t2: "talks (store (run True sdgTitles0 (Mount # ?es) (initialPanel ''Water'' store0))) =
      talks store0"
    using strict_mode_guard[where es = ?es and M = sdgTitles0 and kw = "''Water''" and st = store0]
      b by blast
  have t3: "talks (store (run True sdgTitles0 [Mount, Cleanup, Mount, Settle 0 ?r 0]
      (initialPanel ''Water'' store0))) =
      [talkA] ! randomIndex 0 (length [talkA]) #
      filter (\<lambda>x. title x \<noteq> title ([talkA] ! randomIndex 0 (length [talkA]))) [talkA]"
    using strict_mode_guard[where rs = "[Some docA]" and data = "[talkA]" and M = sdgTitles0
        and kw = "''Water''" and st = store0 and rnd = 0] c
    by blast
  have t4: "isStrictMode (mountEffect True (initialPanel ''Water'' store0))"
    using strict_mode_guard[where kw = "''Water''" and st = store0] by blast
  show ?thesis
    unfolding panel0_def using b c(1) t1 t2 t3 t4 a(2,3) c' by (simp only: simp_thms)
qed

section \<open>One message per title\<close>

text \<open>
  C10. A call of \<open>sendTranscriptAsMessage\<close> with a talk whose title is in the sent set
  dispatches nothing and leaves the store, hence the chat message history, and the sent
  set as they were. A call with a talk whose title is not in the sent set dispatches one
  message and puts the title into the sent set. Over the lifetime of the panel (every
  sequence of events from its initial state) no title is reported sent twice, every title
  reported sent is in the sent set, and the panel has dispatched exactly one chat message
  per title reported sent.
\<close>

theorem sendTranscriptAsMessage_once_per_title:
  "(title talk \<in> sentMessagesRef s \<longrightarrow>
      dispatched (sendTranscriptAsMessage M talk s) = dispatched s \<and>
      store (sendTranscriptAsMessage M talk s) = store s \<and>
      sentMessagesRef (sendTranscriptAsMessage M talk s) = sentMessagesRef s) \<and>
   (title talk \<notin> sentMessagesRef s \<longrightarrow>
      length (sentMessages (dispatched (sendTranscriptAsMessage M talk s))) =
        Suc (length (sentMessages (dispatched s))) \<and>
      sentTitles (console (sendTranscriptAsMessage M talk s)) =
        sentTitles (console s) @ [title talk] \<and>
      title talk \<in> sentMessagesRef (sendTranscriptAsMessage M talk s)) \<and>
   title talk \<in> sentMessagesRef (sendTranscriptAsMessage M talk s) \<and>
   messages (store (sendTranscriptAsMessage M talk (sendTranscriptAsMessage M talk s))) =
     messages (store (sendTranscriptAsMessage M talk s)) \<and>
   distinct (sentTitles (console (run isDevelopment M es (initialPanel kw st)))) \<and>
   set (sentTitles (console (run isDevelopment M es (initialPanel kw st))))
     \<subseteq> sentMessagesRef (run isDevelopment M es (initialPanel kw st)) \<and>
   length (sentMessages (dispatched (run isDevelopment M es (initialPanel kw st)))) =
     length (sentTitles (console (run isDevelopment M es (initialPanel kw st))))"
proof -
  have inv: "sent_once (run isDevelopment M es (initialPanel kw st))"
    by (rule sent_once_run[OF sent_once_initialPanel])
  have sent: "title talk \<in> sentMessagesRef s \<longrightarrow>
      dispatched (sendTranscriptAsMessage M talk s) = dispatched s \<and>
      store (sendTranscriptAsMessage M talk s) = store s \<and>
      sentMessagesRef (sendTranscriptAsMessage M talk s) = sentMessagesRef s"
    by (simp add: sendTranscriptAsMessage_def debugLog_def)
  have unsent: "title talk \<notin> sentMessagesRef s \<longrightarrow>
      length (sentMessages (dispatched (sendTranscriptAsMessage M talk s))) =
        Suc (length (sentMessages (dispatched s))) \<and>
      sentTitles (console (sendTranscriptAsMessage M talk s)) =
        sentTitles (console s) @ [title talk] \<and>
      title talk \<in> sentMessagesRef (sendTranscriptAsMessage M talk s)"
    by (simp add: sendTranscriptAsMessage_def basic_defs Let_def sentMessages_append
        sentTitles_append)
  have after: "title talk \<in> sentMessagesRef (sendTranscriptAsMessage M talk s')" for s'
    by (simp add: sendTranscriptAsMessage_def basic_defs Let_def)
  have twice: "messages (store (sendTranscriptAsMessage M talk (sendTranscriptAsMessage M talk s))) =
     messages (store (sendTranscriptAsMessage M talk s))"
    using after[of s]
    by (simp add: sendTranscriptAsMessage_def[of M talk "sendTranscriptAsMessage M talk s"]
        debugLog_def)
  show ?thesis
    using inv sent unsent after[of s] twice unfolding sent_once_def by blast
qed

theorem sendTranscriptAsMessage_once_per_title_witness:
  "title talkA \<in> sentMessagesRef (sendTranscriptAsMessage sdgTitles0 talkA panel0) \<and>
   title talkB \<in> sentMessagesRef (sendTranscriptAsMessage sdgTitles0 talkA panel0) \<and>
   dispatched (sendTranscriptAsMessage sdgTitles0 talkB
      (sendTranscriptAsMessage sdgTitles0 talkA panel0)) =
     dispatched (sendTranscriptAsMessage sdgTitles0 talkA panel0) \<and>
   title talkC \<notin> sentMessagesRef (sendTranscriptAsMessage sdgTitles0 talkA panel0) \<and>
   length (sentMessages (dispatched (sendTranscriptAsMessage sdgTitles0 talkC
      (sendTranscriptAsMessage sdgTitles0 talkA panel0)))) = 2"
proof -
  let ?s = "sendTranscriptAsMessage sdgTitles0 talkA panel0"
  have a: "title talkB \<in> sentMessagesRef ?s" "title talkC \<notin> sentMessagesRef ?s"
    "length (sentMessages (dispatched ?s)) = 1"
    by code_simp+
  have t0: "title talkA \<in> sentMessagesRef ?s"
    using sendTranscriptAsMessage_once_per_title[where talk = talkA and s = panel0
        and M = sdgTitles0] by blast
  have t1: "dispatched (sendTranscriptAsMessage sdgTitles0 talkB ?s) = dispatched ?s"
    using sendTranscriptAsMessage_once_per_title[where talk = talkB and s = ?s
        and M = sdgTitles0] a(1) by blast
  have t2: "length (sentMessages (dispatched (sendTranscriptAsMessage sdgTitles0 talkC ?s))) =
      Suc (length (sentMessages (dispatched ?s)))"
    using sendTranscriptAsMessage_once_per_title[where talk = talkC and s = ?s
        and M = sdgTitles0] a(2) by blast
  show ?thesis using a t0 t1 t2 by simp
qed

section \<open>Forwarding the selected talk to the chat\<close>

text \<open>
  C4 (amended). For every non-empty result list handled by \<open>handleSearchResults\<close>, if the
  title of the selected talk is not in the sent set, one bot message is dispatched after
  the talk actions and appended to the chat messages of the store: its persona is the
  talk's presenter display name, and its text contains the talk's transcript, its title and
  each of its SDG tag titles. If the title is already in the sent set, no message is
  dispatched and the chat messages stay as they were.
\<close>

theorem handleSearchResults_forwards_transcript:
  assumes "data \<noteq> []"
  shows "(title (data ! randomIndex rnd (length data)) \<notin> sentMessagesRef s \<longrightarrow>
      dispatched (handleSearchResults M rnd data s) = dispatched s @
        [setTalks data,
         setTalks (data ! randomIndex rnd (length data) #
           filter (\<lambda>x. title x \<noteq> title (data ! randomIndex rnd (length data))) data),
         setSelectedTalk (data ! randomIndex rnd (length data)),
         sendMessage \<lparr>persona = presenterDisplayName (data ! randomIndex rnd (length data)),
           role = ''bot'', sender = ''bot'',
           msg_text = transcriptMessage M (data ! randomIndex rnd (length data)),
           hidden = False\<rparr>] \<and>
      messages (store (handleSearchResults M rnd data s)) = messages (store s) @
        [\<lparr>persona = presenterDisplayName (data ! randomIndex rnd (length data)),
           role = ''bot'', sender = ''bot'',
           msg_text = transcriptMessage M (data ! randomIndex rnd (length data)),
           hidden = False\<rparr>]) \<and>
    sublist (transcript (data ! randomIndex rnd (length data)))
      (transcriptMessage M (data ! randomIndex rnd (length data))) \<and>
    sublist (title (data ! randomIndex rnd (length data)))
      (transcriptMessage M (data ! randomIndex rnd (length data))) \<and>
    (\<forall>x \<in> set (getSdgTitles M (sdg_tags (data ! randomIndex rnd (length data)))).
        sublist x (transcriptMessage M (data ! randomIndex rnd (length data)))) \<and>
    (title (data ! randomIndex rnd (length data)) \<in> sentMessagesRef s \<longrightarrow>
      dispatched (handleSearchResults M rnd data s) = dispatched s @
        [setTalks data,
         setTalks (data ! randomIndex rnd (length data) #
           filter (\<lambda>x. title x \<noteq> title (data ! randomIndex rnd (length data))) data),
         setSelectedTalk (data ! randomIndex rnd (length data))] \<and>
      messages (store (handleSearchResults M rnd data s)) = messages (store s))"
  using handleSearchResults_dispatched[OF assms, of rnd s M] transcriptMessage_contains
  by blast

theorem handleSearchResults_forwards_transcript_witness:
  "[talkC, talkA] \<noteq> [] \<and>
   title talkA \<notin> sentMessagesRef panel0 \<and>
   messages (store (handleSearchResults sdgTitles0 (1/2) [talkC, talkA] panel0)) =
     [\<lparr>persona = ''Ada'', role = ''bot'', sender = ''bot'',
       msg_text = transcriptMessage sdgTitles0 talkA, hidden = False\<rparr>] \<and>
   sublist ''Clean Water and Sanitation'' (transcriptMessage sdgTitles0 talkA)"
proof -
  have a: "[talkC, talkA] \<noteq> []" by simp
  have b: "[talkC, talkA] ! randomIndex (1/2) (length [talkC, talkA]) = talkA"
    "title talkA \<notin> sentMessagesRef panel0" "messages (store panel0) = []"
    "presenterDisplayName talkA = ''Ada''"
    "''Clean Water and Sanitation'' \<in> set (getSdgTitles sdgTitles0 (sdg_tags talkA))"
    by code_simp+
  show ?thesis
    using handleSearchResults_forwards_transcript[OF a, of "1/2" panel0 sdgTitles0] a
    unfolding b by (simp add: b)
qed

theorem forwards_transcript_counterexample:
  "[talkA] \<noteq> [] \<and>
   dispatched (handleSearchResults sdgTitles0 0 [talkA]
      (handleSearchResults sdgTitles0 0 [talkA] panel0)) =
     dispatched (handleSearchResults sdgTitles0 0 [talkA] panel0) @
     [setTalks [talkA], setTalks [talkA], setSelectedTalk talkA] \<and>
   messages (store (handleSearchResults sdgTitles0 0 [talkA]
      (handleSearchResults sdgTitles0 0 [talkA] panel0))) =
     messages (store (handleSearchResults sdgTitles0 0 [talkA] panel0))"
  by code_simp

section \<open>Reordering the results\<close>

text \<open>
  What \<open>handleSearchResults\<close> stores for a non-empty result list: the selected talk is an
  element of the list and becomes the selected talk of the store, and the stored list is
  the selected talk followed by the talks whose title differs from its title. Where the
  selected talk is the only talk of the list with its title, that is the input with the
  selected talk moved to the top.
\<close>

lemma handleSearchResults_moves_selected_to_top:
  assumes "data \<noteq> []" and "0 \<le> rnd" and "rnd < 1"
  shows "randomIndex rnd (length data) < length data \<and>
    data ! randomIndex rnd (length data) \<in> set data \<and>
    selectedTalk (store (handleSearchResults M rnd data s)) =
      Some (data ! randomIndex rnd (length data)) \<and>
    talks (store (handleSearchResults M rnd data s)) =
      data ! randomIndex rnd (length data) #
      filter (\<lambda>x. title x \<noteq> title (data ! randomIndex rnd (length data))) data \<and>
    (length (filter (\<lambda>x. title x = title (data ! randomIndex rnd (length data))) data) = 1 \<longrightarrow>
      mset (talks (store (handleSearchResults M rnd data s))) = mset data)"
proof -
  let ?t = "data ! randomIndex rnd (length data)"
  have i: "randomIndex rnd (length data) < length data"
    using assms by (intro randomIndex_less) simp_all
  then have mem: "?t \<in> set data" by simp
  have perm: "length (filter (\<lambda>x. title x = title ?t) data) = 1 \<longrightarrow>
      mset (talks (store (handleSearchResults M rnd data s))) = mset data"
    using move_to_top_mset[OF mem] by (simp add: handleSearchResults_store[OF assms(1)])
  show ?thesis
    using i mem perm handleSearchResults_store[OF assms(1), of M rnd s] by blast
qed

lemma handleSearchResults_moves_selected_to_top_example:
  "[talkA, talkC] \<noteq> [] \<and> (0::rat) \<le> 1/2 \<and> (1/2::rat) < 1 \<and>
   length (filter (\<lambda>x. title x = title talkC) [talkA, talkC]) = 1 \<and>
   talks (store (handleSearchResults sdgTitles0 (1/2) [talkA, talkC] panel0)) = [talkC, talkA] \<and>
   selectedTalk (store (handleSearchResults sdgTitles0 (1/2) [talkA, talkC] panel0)) = Some talkC \<and>
   mset (talks (store (handleSearchResults sdgTitles0 (1/2) [talkA, talkC] panel0))) =
     mset [talkA, talkC]"
proof -
  have a: "[talkA, talkC] \<noteq> []" "(0::rat) \<le> 1/2" "(1/2::rat) < 1" by simp_all
  have b: "[talkA, talkC] ! randomIndex (1/2) (length [talkA, talkC]) = talkC"
    "length (filter (\<lambda>x. title x = title talkC) [talkA, talkC]) = 1"
    "talkC # filter (\<lambda>x. title x \<noteq> title talkC) [talkA, talkC] = [talkC, talkA]"
    by code_simp+
  show ?thesis
    using handleSearchResults_moves_selected_to_top[OF a, of sdgTitles0 panel0] a
    unfolding b by (simp add: b)
qed

text \<open>
  C2. The code comments describe the step as moving the selected talk to the top of the
  list (lines 172 and 178), but the filter of line 175 compares titles. On the result list
  \<open>[talkA, talkB, talkC]\<close>, where \<open>talkA\<close> and \<open>talkB\<close> are different talks with the same
  title, selecting \<open>talkA\<close> (index 0) stores \<open>[talkA, talkC]\<close>: \<open>talkB\<close> is lost and the
  stored list is not a permutation of the input. Selecting \<open>talkC\<close> (index 2) on the same
  list stores \<open>[talkC, talkA, talkB]\<close>, so whether a talk is lost depends on the random
  pick.
\<close>

theorem reorder_drops_same_title_talks:
  "[talkA, talkB, talkC] \<noteq> [] \<and>
   title talkA = title talkB \<and> talkA \<noteq> talkB \<and>
   randomIndex 0 (length [talkA, talkB, talkC]) = 0 \<and>
   selectedTalk (store (handleSearchResults sdgTitles0 0 [talkA, talkB, talkC] panel0)) =
     Some talkA \<and>
   talks (store (handleSearchResults sdgTitles0 0 [talkA, talkB, talkC] panel0)) =
     [talkA, talkC] \<and>
   talkB \<notin> set (talks (store (handleSearchResults sdgTitles0 0 [talkA, talkB, talkC] panel0))) \<and>
   mset (talks (store (handleSearchResults sdgTitles0 0 [talkA, talkB, talkC] panel0))) \<noteq>
     mset [talkA, talkB, talkC] \<and>
   randomIndex (5/6) (length [talkA, talkB, talkC]) = 2 \<and>
   talks (store (handleSearchResults sdgTitles0 (5/6) [talkA, talkB, talkC] panel0)) =
     [talkC, talkA, talkB]"
proof -
  have a: "talks (store (handleSearchResults sdgTitles0 0 [talkA, talkB, talkC] panel0)) =
     [talkA, talkC]" by code_simp
  have b: "title talkA = title talkB" "talkA \<noteq> talkB" "talkB \<noteq> talkA" "talkB \<noteq> talkC"
    "randomIndex 0 (length [talkA, talkB, talkC]) = 0"
    "selectedTalk (store (handleSearchResults sdgTitles0 0 [talkA, talkB, talkC] panel0)) =
       Some talkA"
    "randomIndex (5/6) (length [talkA, talkB, talkC]) = 2"
    "talks (store (handleSearchResults sdgTitles0 (5/6) [talkA, talkB, talkC] panel0)) =
       [talkC, talkA, talkB]"
    by code_simp+
  have "size (mset [talkA, talkC]) \<noteq> size (mset [talkA, talkB, talkC])" by simp
  then have c: "mset [talkA, talkC] \<noteq> mset [talkA, talkB, talkC]" by metis
  show ?thesis unfolding a using b c by simp
qed

section \<open>Searches are not debounced\<close>

text \<open>
  C3. The debounced function is never called: in every state the panel can reach from its
  initial state no debounce timer is pending. A search triggered from the query input runs
  \<open>performSearch\<close> at once. In production, after the search of the mount has settled and
  one second has passed, typing a query, pressing Enter, and pressing Enter again as soon
  as the first request has settled issues two requests at the same millisecond, with no
  quiet period before either.
\<close>

theorem searches_are_not_debounced:
  "debounceTimer (run isDevelopment M es (initialPanel kw st)) = None \<and>
   map call_time (calls (run False sdgTitles0
     [Mount, Settle 0 (Response 200 (Some [Some docA])) 0, Tick 1000,
      Change ''s'', Change ''solar'', KeyDown ''Enter'',
      Settle 1 (Response 200 (Some [])) 0, KeyDown ''Enter''] panel0)) = [0, 1000, 1000] \<and>
   map call_query (calls (run False sdgTitles0
     [Mount, Settle 0 (Response 200 (Some [Some docA])) 0, Tick 1000,
      Change ''s'', Change ''solar'', KeyDown ''Enter'',
      Settle 1 (Response 200 (Some [])) 0, KeyDown ''Enter''] panel0)) =
     [''water'', ''solar'', ''solar'']"
proof -
  have "debounceTimer (run isDevelopment M es (initialPanel kw st)) = None"
    by (rule debounceTimer_run) (simp add: initialPanel_def)
  moreover have "map call_time (calls (run False sdgTitles0
     [Mount, Settle 0 (Response 200 (Some [Some docA])) 0, Tick 1000,
      Change ''s'', Change ''solar'', KeyDown ''Enter'',
      Settle 1 (Response 200 (Some [])) 0, KeyDown ''Enter''] panel0)) = [0, 1000, 1000]"
    by code_simp
  moreover have "map call_query (calls (run False sdgTitles0
     [Mount, Settle 0 (Response 200 (Some [Some docA])) 0, Tick 1000,
      Change ''s'', Change ''solar'', KeyDown ''Enter'',
      Settle 1 (Response 200 (Some [])) 0, KeyDown ''Enter''] panel0)) =
     [''water'', ''solar'', ''solar'']"
    by code_simp
  ultimately show ?thesis by blast
qed

end
